theory Spec2Isabelle
  imports Complex_Main
begin

section \<open>Numbers, points and distance\<close>

text \<open>
  The game is \<^verbatim>\<open>src/components/MonsterElectricoGame.tsx\<close>. A JavaScript \<^verbatim>\<open>number\<close> that
  holds a coordinate, a length, an angle or a time is modelled as a \<^typ>\<open>real\<close>: the
  development is about the arithmetic the code writes down, not about the rounding of IEEE
  doubles, and has no NaN, no infinity and no negative zero. Counters (score, seconds left,
  array indices) are integers.
\<close>

record point =
  px :: real
  py :: real

text \<open>\<^verbatim>\<open>dist(p1x, p1y, p2x, p2y)\<close>, lines 58-63 (\<open>dist\<close> is HOL's metric, hence the suffix).\<close>

definition dist2 :: "real \<Rightarrow> real \<Rightarrow> real \<Rightarrow> real \<Rightarrow> real" where
  "dist2 p1x p1y p2x p2y = sqrt ((p2x - p1x) ^ 2 + (p2y - p1y) ^ 2)"

text \<open>
  \<^verbatim>\<open>Math.atan2(y, x)\<close> is a library function of the language: the angle in \<open>(-\<pi>, \<pi>]\<close> of the
  point \<open>(x, y)\<close>, and \<open>0\<close> at the origin.
\<close>

definition atan2 :: "real \<Rightarrow> real \<Rightarrow> real" where
  "atan2 yy xx =
     (if 0 < xx then arctan (yy / xx)
      else if xx < 0 \<and> 0 \<le> yy then arctan (yy / xx) + pi
      else if xx < 0 then arctan (yy / xx) - pi
      else if 0 < yy then pi / 2
      else if yy < 0 then - (pi / 2)
      else 0)"

section \<open>Segments\<close>

text \<open>The interface \<^verbatim>\<open>Segment\<close> and the class \<^verbatim>\<open>TentacleSegment\<close>, lines 10-18 and 66-113.\<close>

record segment =
  pos :: point
  nextPos :: point
  slength :: real
  angle :: real
  first :: bool

text \<open>
  What goes wrong at run time is a value of the model. \<open>TypeError\<close> is the exception of
  reading a property of \<^verbatim>\<open>undefined\<close> (an array read out of range, then a field or a method
  of the result). \<open>UndefinedNumber\<close> stands for a number computed from \<^verbatim>\<open>undefined\<close>, which
  has no real value.
\<close>

datatype error = TypeError | UndefinedNumber

text \<open>
  The constructor's \<^verbatim>\<open>parent\<close> is either an object with \<^verbatim>\<open>x\<close> and \<^verbatim>\<open>y\<close> (the tentacle)
  or one with \<^verbatim>\<open>nextPos\<close> (the previous segment); the flag \<^verbatim>\<open>first\<close> says which fields
  are read. With \<^verbatim>\<open>first\<close> set and a segment as parent, \<^verbatim>\<open>parent.x\<close> is undefined; with
  \<^verbatim>\<open>first\<close> unset and no \<^verbatim>\<open>nextPos\<close> in the parent, \<^verbatim>\<open>parent.nextPos.x\<close> throws.
\<close>

datatype parent = ParentXY real real | ParentSegment segment

definition TentacleSegment :: "parent \<Rightarrow> real \<Rightarrow> real \<Rightarrow> bool \<Rightarrow> error + segment" where
  "TentacleSegment par len ang fst_flag =
     (case (if fst_flag
            then (case par of ParentXY ax ay \<Rightarrow> Inr \<lparr>px = ax, py = ay\<rparr>
                  | ParentSegment _ \<Rightarrow> Inl UndefinedNumber)
            else (case par of ParentSegment s \<Rightarrow> Inr \<lparr>px = px (nextPos s), py = py (nextPos s)\<rparr>
                  | ParentXY _ _ \<Rightarrow> Inl TypeError)) of
        Inl e \<Rightarrow> Inl e
      | Inr p \<Rightarrow>
          Inr \<lparr>pos = p,
               nextPos = \<lparr>px = px p + len * cos ang, py = py p + len * sin ang\<rparr>,
               slength = len, angle = ang, first = fst_flag\<rparr>)"

text \<open>\<^verbatim>\<open>update(target)\<close>, lines 99-105: the five assignments in order.\<close>

definition update :: "segment \<Rightarrow> point \<Rightarrow> segment" where
  "update s tgt =
     (let s1 = s\<lparr>angle := atan2 (py tgt - py (pos s)) (px tgt - px (pos s))\<rparr>;
          s2 = s1\<lparr>pos := (pos s1)\<lparr>px := px tgt + slength s1 * cos (angle s1 - pi)\<rparr>\<rparr>;
          s3 = s2\<lparr>pos := (pos s2)\<lparr>py := py tgt + slength s2 * sin (angle s2 - pi)\<rparr>\<rparr>;
          s4 = s3\<lparr>nextPos := (nextPos s3)\<lparr>px := px (pos s3) + slength s3 * cos (angle s3)\<rparr>\<rparr>
      in s4\<lparr>nextPos := (nextPos s4)\<lparr>py := py (pos s4) + slength s4 * sin (angle s4)\<rparr>\<rparr>)"

text \<open>\<^verbatim>\<open>fallback(target)\<close>, lines 107-112.\<close>

definition fallback :: "segment \<Rightarrow> point \<Rightarrow> segment" where
  "fallback s tgt =
     (let s1 = s\<lparr>pos := (pos s)\<lparr>px := px tgt\<rparr>\<rparr>;
          s2 = s1\<lparr>pos := (pos s1)\<lparr>py := py tgt\<rparr>\<rparr>;
          s3 = s2\<lparr>nextPos := (nextPos s2)\<lparr>px := px (pos s2) + slength s2 * cos (angle s2)\<rparr>\<rparr>
      in s3\<lparr>nextPos := (nextPos s3)\<lparr>py := py (pos s3) + slength s3 * sin (angle s3)\<rparr>\<rparr>)"

text \<open>The end point that a segment's position, length and angle determine.\<close>

definition tip_of :: "segment \<Rightarrow> point" where
  "tip_of s = \<lparr>px = px (pos s) + slength s * cos (angle s),
              py = py (pos s) + slength s * sin (angle s)\<rparr>"

section \<open>Tentacles\<close>

text \<open>The interface \<^verbatim>\<open>Tentacle\<close>, lines 20-30. \<^verbatim>\<open>numSegments\<close> is a number of its own, next
  to the array; the loops count with it.\<close>

record tentacle =
  tx :: real
  ty :: real
  tlength :: real
  numSegments :: int
  segments :: "segment list"
  target :: point
  rand :: real
  tangle :: real
  dt :: real

text \<open>
  \<^verbatim>\<open>segments[i]\<close> followed by a field or method access: out of range the array read gives
  \<^verbatim>\<open>undefined\<close> and the access throws.
\<close>

definition seg_at :: "segment list \<Rightarrow> int \<Rightarrow> error + segment" where
  "seg_at segs i =
     (if 0 \<le> i \<and> i < int (length segs) then Inr (segs ! nat i) else Inl TypeError)"

text \<open>
  The loop of lines 295-297, \<^verbatim>\<open>for (i = numSegments - 2; i >= 0; i--)\<close>: segment \<open>i\<close>
  is updated toward the position segment \<open>i + 1\<close> has at that moment.
\<close>

function ik_loop :: "segment list \<Rightarrow> int \<Rightarrow> error + segment list" where
  "ik_loop segs i =
     (if 0 \<le> i then
        (case seg_at segs i of
           Inl e \<Rightarrow> Inl e
         | Inr s \<Rightarrow>
             (case seg_at segs (i + 1) of
                Inl e \<Rightarrow> Inl e
              | Inr n \<Rightarrow> ik_loop (segs[nat i := update s (pos n)]) (i - 1)))
      else Inr segs)"
  by pat_completeness auto
termination
  by (relation "measure (\<lambda>(segs, i). nat (i + 1))") auto

text \<open>
  The loop of lines 305-307, \<^verbatim>\<open>for (i = 1; i < numSegments; i++)\<close>: segment \<open>i\<close> falls
  back to the \<^verbatim>\<open>nextPos\<close> segment \<open>i - 1\<close> has at that moment.
\<close>

function fallback_loop :: "segment list \<Rightarrow> int \<Rightarrow> int \<Rightarrow> error + segment list" where
  "fallback_loop segs i n =
     (if i < n then
        (case seg_at segs i of
           Inl e \<Rightarrow> Inl e
         | Inr s \<Rightarrow>
             (case seg_at segs (i - 1) of
                Inl e \<Rightarrow> Inl e
              | Inr p \<Rightarrow> fallback_loop (segs[nat i := fallback s (nextPos p)]) (i + 1) n))
      else Inr segs)"
  by pat_completeness auto
termination
  by (relation "measure (\<lambda>(segs, i, n). nat (n - i))") auto

text \<open>Lines 280-286: the tentacle's angle and \<^verbatim>\<open>dt\<close>, then the point \<^verbatim>\<open>t\<close>.\<close>

definition aim :: "point \<Rightarrow> point \<Rightarrow> tentacle \<Rightarrow> tentacle" where
  "aim tgt lastTgt tn =
     (let tn1 = tn\<lparr>tangle := atan2 (py tgt - ty tn) (px tgt - tx tn)\<rparr>
      in tn1\<lparr>dt := dist2 (px lastTgt) (py lastTgt) (px tgt) (py tgt) + 5\<rparr>)"

definition lead :: "point \<Rightarrow> tentacle \<Rightarrow> point" where
  "lead tgt tn = \<lparr>px = px tgt - 0.8 * dt tn * cos (tangle tn),
                  py = py tgt - 0.8 * dt tn * sin (tangle tn)\<rparr>"

text \<open>Lines 280-297. \<^verbatim>\<open>if (t.x)\<close> is false exactly when \<^verbatim>\<open>t.x\<close> is zero.\<close>

definition ik_pass :: "point \<Rightarrow> point \<Rightarrow> tentacle \<Rightarrow> error + tentacle" where
  "ik_pass tgt lastTgt tn0 =
     (let tn = aim tgt lastTgt tn0;
          t = lead tgt tn
      in case seg_at (segments tn) (numSegments tn - 1) of
           Inl e \<Rightarrow> Inl e
         | Inr s \<Rightarrow>
             (case ik_loop ((segments tn)[nat (numSegments tn - 1) :=
                              update s (if px t \<noteq> 0 then t else tgt)])
                     (numSegments tn - 2) of
                Inl e \<Rightarrow> Inl e
              | Inr segs \<Rightarrow> Inr (tn\<lparr>segments := segs\<rparr>)))"

text \<open>The condition of lines 300-303 and the body of lines 304-307.\<close>

definition in_reach :: "point \<Rightarrow> point \<Rightarrow> tentacle \<Rightarrow> bool" where
  "in_reach tgt lastTgt tn \<longleftrightarrow>
     dist2 (tx tn) (ty tn) (px tgt) (py tgt)
       \<le> tlength tn + dist2 (px lastTgt) (py lastTgt) (px tgt) (py tgt)"

definition fallback_pass :: "tentacle \<Rightarrow> error + tentacle" where
  "fallback_pass tn =
     (case seg_at (segments tn) 0 of
        Inl e \<Rightarrow> Inl e
      | Inr s \<Rightarrow>
          (case fallback_loop ((segments tn)[0 := fallback s \<lparr>px = tx tn, py = ty tn\<rparr>])
                  1 (numSegments tn) of
             Inl e \<Rightarrow> Inl e
           | Inr segs \<Rightarrow> Inr (tn\<lparr>segments := segs\<rparr>)))"

text \<open>The callback of \<^verbatim>\<open>m.tentacles.forEach\<close>, lines 278-309.\<close>

definition update_tentacle :: "point \<Rightarrow> point \<Rightarrow> tentacle \<Rightarrow> error + tentacle" where
  "update_tentacle tgt lastTgt tn0 =
     (case ik_pass tgt lastTgt tn0 of
        Inl e \<Rightarrow> Inl e
      | Inr tn \<Rightarrow> if in_reach tgt lastTgt tn then fallback_pass tn else Inr tn)"

fun forEach_tentacles :: "point \<Rightarrow> point \<Rightarrow> tentacle list \<Rightarrow> error + tentacle list" where
  "forEach_tentacles tgt lastTgt [] = Inr []"
| "forEach_tentacles tgt lastTgt (tn # tns) =
     (case update_tentacle tgt lastTgt tn of
        Inl e \<Rightarrow> Inl e
      | Inr tn' \<Rightarrow>
          (case forEach_tentacles tgt lastTgt tns of
             Inl e \<Rightarrow> Inl e
           | Inr tns' \<Rightarrow> Inr (tn' # tns')))"

section \<open>Random numbers and the canvas\<close>

text \<open>
  \<^verbatim>\<open>Math.random()\<close> is an input of the program: a function that is handed the sequence of
  the values the calls return, in order. \<open>rnd_drop k rs\<close> is what is left after \<open>k\<close> calls.
  The values lie in \<open>[0, 1)\<close>.
\<close>

type_synonym rnd = "nat \<Rightarrow> real"

definition rnd_drop :: "nat \<Rightarrow> rnd \<Rightarrow> rnd" where
  "rnd_drop k rs = (\<lambda>n. rs (n + k))"

definition rnd_ok :: "rnd \<Rightarrow> bool" where
  "rnd_ok rs \<longleftrightarrow> (\<forall>n. 0 \<le> rs n \<and> rs n < 1)"

record canvas =
  width :: real
  height :: real

section \<open>Building the tentacles\<close>

text \<open>The loop of lines 164-168, pushing one segment built on the previous one.\<close>

function push_segments :: "segment list \<Rightarrow> real \<Rightarrow> int \<Rightarrow> int \<Rightarrow> error + segment list" where
  "push_segments segs segmentLength i numSegs =
     (if i < numSegs then
        (case seg_at segs (i - 1) of
           Inl e \<Rightarrow> Inl e
         | Inr p \<Rightarrow>
             (case TentacleSegment (ParentSegment p) segmentLength 0 False of
                Inl e \<Rightarrow> Inl e
              | Inr s \<Rightarrow> push_segments (segs @ [s]) segmentLength (i + 1) numSegs))
      else Inr segs)"
  by pat_completeness auto
termination
  by (relation "measure (\<lambda>(segs, l, i, n). nat (n - i))") auto

text \<open>The three loops are unfolded by hand in the proofs, one iteration at a time.\<close>

declare ik_loop.simps [simp del] fallback_loop.simps [simp del] push_segments.simps [simp del]

text \<open>
  The callback of \<^verbatim>\<open>Array.from\<close>, lines 144-171. It calls \<^verbatim>\<open>Math.random()\<close> four times:
  for the length, for \<^verbatim>\<open>x\<close>, for \<^verbatim>\<open>y\<close> and for \<^verbatim>\<open>rand\<close>.
\<close>

definition new_tentacle :: "canvas \<Rightarrow> real \<Rightarrow> real \<Rightarrow> int \<Rightarrow> rnd \<Rightarrow> error + tentacle" where
  "new_tentacle c maxLength minLength numSegs rs =
     (let len = rs 0 * (maxLength - minLength) + minLength;
          tn = \<lparr>tx = rs 1 * width c, ty = rs 2 * height c, tlength = len,
                numSegments = numSegs, segments = [], target = \<lparr>px = 0, py = 0\<rparr>,
                rand = rs 3, tangle = 0, dt = 0\<rparr>;
          segmentLength = len / real_of_int numSegs
      in case TentacleSegment (ParentXY (tx tn) (ty tn)) segmentLength 0 True of
           Inl e \<Rightarrow> Inl e
         | Inr s0 \<Rightarrow>
             (case push_segments [s0] segmentLength 1 numSegs of
                Inl e \<Rightarrow> Inl e
              | Inr segs \<Rightarrow> Inr (tn\<lparr>segments := segs\<rparr>)))"

fun array_from_tentacles ::
  "nat \<Rightarrow> canvas \<Rightarrow> real \<Rightarrow> real \<Rightarrow> int \<Rightarrow> rnd \<Rightarrow> error + tentacle list" where
  "array_from_tentacles 0 c maxLength minLength numSegs rs = Inr []"
| "array_from_tentacles (Suc k) c maxLength minLength numSegs rs =
     (case new_tentacle c maxLength minLength numSegs rs of
        Inl e \<Rightarrow> Inl e
      | Inr tn \<Rightarrow>
          (case array_from_tentacles k c maxLength minLength numSegs (rnd_drop 4 rs) of
             Inl e \<Rightarrow> Inl e
           | Inr tns \<Rightarrow> Inr (tn # tns)))"

section \<open>The monster\<close>

text \<open>The object \<^verbatim>\<open>monster.current\<close>, lines 116-128.\<close>

record monster =
  coreX :: real
  coreY :: real
  coreRadius :: real
  tentacles :: "tentacle list"
  mouseX :: real
  mouseY :: real
  lastTarget :: point
  targetErrorX :: real
  targetErrorY :: real
  autoMoveTime :: real
  nearBoundary :: bool

text \<open>
  \<^verbatim>\<open>initializeTentacles\<close>, lines 133-172, with \<^verbatim>\<open>window.innerWidth\<close> as a parameter.
  Without a canvas it returns at once.
\<close>

definition initializeTentacles ::
  "canvas option \<Rightarrow> real \<Rightarrow> rnd \<Rightarrow> monster \<Rightarrow> error + monster" where
  "initializeTentacles co innerWidth rs m =
     (case co of
        None \<Rightarrow> Inr m
      | Some c \<Rightarrow>
          (let isMobile = innerWidth < 768;
               tentacleCount = (if isMobile then 150 else 300);
               maxLength = (if isMobile then 200 else 300);
               minLength = (if isMobile then 30 else 50);
               numSegs = (if isMobile then 20 else 30)
           in case array_from_tentacles tentacleCount c maxLength minLength numSegs rs of
                Inl e \<Rightarrow> Inl e
              | Inr tns \<Rightarrow> Inr (m\<lparr>tentacles := tns\<rparr>)))"

text \<open>The autopilot curve of lines 249-261, at the time \<open>t\<close>.\<close>

definition autoX :: "canvas \<Rightarrow> real \<Rightarrow> real" where
  "autoX c t = width c / 2
     + ((height c / 2 / 2 - 10) * sqrt 2 * cos t) / ((sin t) ^ 2 + 1)"

definition autoY :: "canvas \<Rightarrow> real \<Rightarrow> real" where
  "autoY c t = height c / 2
     + ((height c / 2 / 2 - 10) * sqrt 2 * cos t * sin t) / ((sin t) ^ 2 + 1)"

text \<open>
  Lines 243-272 of \<^verbatim>\<open>updateMonster\<close>: the target error, the move of the core and the clock.
  \<^verbatim>\<open>m.mouseX && m.mouseY\<close> is true exactly when both numbers are not zero.
\<close>

definition move_core :: "canvas \<Rightarrow> monster \<Rightarrow> monster" where
  "move_core c m =
     (let m1 = (if mouseX m \<noteq> 0 \<and> mouseY m \<noteq> 0
                then m\<lparr>targetErrorX := mouseX m - coreX m, targetErrorY := mouseY m - coreY m\<rparr>
                else m\<lparr>targetErrorX := autoX c (autoMoveTime m) - coreX m,
                       targetErrorY := autoY c (autoMoveTime m) - coreY m\<rparr>);
          m2 = m1\<lparr>coreX := coreX m1 + targetErrorX m1 / 10\<rparr>;
          m3 = m2\<lparr>coreY := coreY m2 + targetErrorY m2 / 10\<rparr>
      in m3\<lparr>autoMoveTime := autoMoveTime m3 + 0.01\<rparr>)"

text \<open>\<^verbatim>\<open>updateMonster\<close>, lines 235-313.\<close>

definition updateMonster :: "canvas option \<Rightarrow> monster \<Rightarrow> error + monster" where
  "updateMonster co m0 =
     (case co of
        None \<Rightarrow> Inr m0
      | Some c \<Rightarrow>
          (let m = move_core c m0;
               tgt = \<lparr>px = coreX m, py = coreY m\<rparr>
           in case forEach_tentacles tgt (lastTarget m) (tentacles m) of
                Inl e \<Rightarrow> Inl e
              | Inr tns \<Rightarrow> Inr (m\<lparr>tentacles := tns, lastTarget := \<lparr>px = px tgt, py = py tgt\<rparr>\<rparr>)))"

section \<open>Particles\<close>

text \<open>The interface \<^verbatim>\<open>Particle\<close>, lines 40-48.\<close>

record particle =
  ptx :: real
  pty :: real
  vx :: real
  vy :: real
  life :: real
  maxLife :: real
  psize :: real

text \<open>
  \<^verbatim>\<open>createParticles(x, y, count = 15)\<close>, lines 218-233: \<open>count\<close> pushes, each with four
  calls of \<^verbatim>\<open>Math.random()\<close> (for \<^verbatim>\<open>vx\<close>, \<^verbatim>\<open>vy\<close>, \<^verbatim>\<open>maxLife\<close>, \<^verbatim>\<open>size\<close>). The argument
  counts the pushes still to make.
\<close>

definition spawn :: "real \<Rightarrow> real \<Rightarrow> rnd \<Rightarrow> particle" where
  "spawn sx sy rs = \<lparr>ptx = sx, pty = sy, vx = (rs 0 - 0.5) * 8, vy = (rs 1 - 0.5) * 8,
                     life = 1, maxLife = 30 + rs 2 * 20, psize = 2 + rs 3 * 3\<rparr>"

fun createParticles ::
  "real \<Rightarrow> real \<Rightarrow> nat \<Rightarrow> rnd \<Rightarrow> particle list \<Rightarrow> particle list \<times> rnd" where
  "createParticles sx sy 0 rs ps = (ps, rs)"
| "createParticles sx sy (Suc k) rs ps =
     createParticles sx sy k (rnd_drop 4 rs) (ps @ [spawn sx sy rs])"

text \<open>The callback of the filter in \<^verbatim>\<open>updateParticles\<close>, lines 362-369, and the filter.\<close>

definition particle_tick :: "particle \<Rightarrow> particle" where
  "particle_tick p =
     (let p1 = p\<lparr>ptx := ptx p + vx p\<rparr>;
          p2 = p1\<lparr>pty := pty p1 + vy p1\<rparr>;
          p3 = p2\<lparr>vx := vx p2 * 0.98\<rparr>;
          p4 = p3\<lparr>vy := vy p3 * 0.98\<rparr>
      in p4\<lparr>life := life p4 - 1\<rparr>)"

fun updateParticles :: "particle list \<Rightarrow> particle list" where
  "updateParticles [] = []"
| "updateParticles (p # ps) =
     (let p' = particle_tick p
      in if 0 < life p' then p' # updateParticles ps else updateParticles ps)"

text \<open>\<^verbatim>\<open>drawParticles\<close>, lines 792-803: the alpha of the fill style and the radius of the arc.\<close>

definition draw_alpha :: "particle \<Rightarrow> real" where
  "draw_alpha p = life p / maxLife p"

definition draw_radius :: "particle \<Rightarrow> real" where
  "draw_radius p = psize p * draw_alpha p"

section \<open>Orbs\<close>

text \<open>The interface \<^verbatim>\<open>Orb\<close>, lines 32-38.\<close>

record orb =
  ox :: real
  oy :: real
  radius :: real
  pulsePhase :: real
  collected :: bool

text \<open>The object literal of \<^verbatim>\<open>generateOrbs\<close> and \<^verbatim>\<open>regenerateOrb\<close>: four random numbers.\<close>

definition new_orb :: "canvas \<Rightarrow> rnd \<Rightarrow> orb" where
  "new_orb c rs =
     \<lparr>ox = 60 + 6 + rs 0 * (width c - 2 * (60 + 6)),
      oy = 60 + 6 + rs 1 * (height c - 2 * (60 + 6)),
      radius = 8 + rs 2 * 4,
      pulsePhase = rs 3 * pi * 2,
      collected = False\<rparr>"

section \<open>The game\<close>

datatype game_state = Playing | Ended

text \<open>
  Everything the component holds: the refs \<^verbatim>\<open>monster\<close>, \<^verbatim>\<open>orbs\<close>, \<^verbatim>\<open>particles\<close> and
  \<^verbatim>\<open>canvasRef\<close>, the React states \<^verbatim>\<open>gameState\<close>, \<^verbatim>\<open>score\<close> and \<^verbatim>\<open>timeLeft\<close> (a state
  setter takes effect at once here), and the callbacks \<^verbatim>\<open>setTimeout\<close> has been given and
  has not run yet, as pairs of the delay in milliseconds and the orb's index.
  An array element is \<open>None\<close> where the JavaScript array has a hole.
\<close>

record game =
  the_monster :: monster
  orbs :: "orb option list"
  particles :: "particle list"
  canvasRef :: "canvas option"
  gameState :: game_state
  score :: int
  timeLeft :: int
  timeouts :: "(int \<times> nat) list"

text \<open>\<^verbatim>\<open>generateOrbs\<close>, lines 174-194: an array of three orbs.\<close>

definition generateOrbs :: "rnd \<Rightarrow> game \<Rightarrow> game" where
  "generateOrbs rs g =
     (case canvasRef g of
        None \<Rightarrow> g
      | Some c \<Rightarrow>
          g\<lparr>orbs := [Some (new_orb c rs), Some (new_orb c (rnd_drop 4 rs)),
                     Some (new_orb c (rnd_drop 8 rs))]\<rparr>)"

text \<open>
  An assignment \<^verbatim>\<open>a[index] = v\<close>: inside the array it replaces the element, at or beyond
  the end the array grows, with holes up to the index.
\<close>

definition array_set :: "'a option list \<Rightarrow> nat \<Rightarrow> 'a \<Rightarrow> 'a option list" where
  "array_set xs i v =
     (if i < length xs then xs[i := Some v]
      else xs @ replicate (i - length xs) None @ [Some v])"

text \<open>\<^verbatim>\<open>regenerateOrb(index)\<close>, lines 196-216.\<close>

definition regenerateOrb :: "nat \<Rightarrow> rnd \<Rightarrow> game \<Rightarrow> game" where
  "regenerateOrb index rs g =
     (case canvasRef g of
        None \<Rightarrow> g
      | Some c \<Rightarrow> g\<lparr>orbs := array_set (orbs g) index (new_orb c rs)\<rparr>)"

text \<open>
  The callback of \<^verbatim>\<open>orbs.current.forEach\<close>, lines 342-358, on the orb at \<open>index\<close>;
  a hole is skipped.
\<close>

definition touches :: "monster \<Rightarrow> orb \<Rightarrow> bool" where
  "touches m ob \<longleftrightarrow>
     sqrt ((coreX m - ox ob) ^ 2 + (coreY m - oy ob) ^ 2) < coreRadius m + radius ob"

definition orb_callback :: "nat \<Rightarrow> game \<times> rnd \<Rightarrow> game \<times> rnd" where
  "orb_callback index = (\<lambda>(g, rs).
     (case orbs g ! index of
        None \<Rightarrow> (g, rs)
      | Some ob \<Rightarrow>
          if \<not> collected ob then
            if touches (the_monster g) ob then
              (let g1 = g\<lparr>orbs := (orbs g)[index := Some (ob\<lparr>collected := True\<rparr>)]\<rparr>;
                   g2 = g1\<lparr>score := score g1 + 1\<rparr>;
                   (ps, rs') = createParticles (ox ob) (oy ob) 15 rs (particles g2);
                   g3 = g2\<lparr>particles := ps\<rparr>
               in (g3\<lparr>timeouts := timeouts g3 @ [(500, index)]\<rparr>, rs'))
            else (g, rs)
          else (g, rs)))"

definition forEach_orbs :: "game \<Rightarrow> rnd \<Rightarrow> game \<times> rnd" where
  "forEach_orbs g rs = fold orb_callback [0..<length (orbs g)] (g, rs)"

text \<open>The two tests of \<^verbatim>\<open>checkCollisions\<close>, lines 324-329 and 335-339.\<close>

definition boundary_hit :: "canvas \<Rightarrow> monster \<Rightarrow> bool" where
  "boundary_hit c m \<longleftrightarrow>
     coreX m \<le> coreRadius m + 6 \<or>
     coreX m \<ge> width c - coreRadius m - 6 \<or>
     coreY m \<le> coreRadius m + 6 \<or>
     coreY m \<ge> height c - coreRadius m - 6"

definition near_boundary :: "canvas \<Rightarrow> monster \<Rightarrow> bool" where
  "near_boundary c m \<longleftrightarrow>
     coreX m \<le> coreRadius m + 6 + 40 \<or>
     coreX m \<ge> width c - coreRadius m - 6 - 40 \<or>
     coreY m \<le> coreRadius m + 6 + 40 \<or>
     coreY m \<ge> height c - coreRadius m - 6 - 40"

text \<open>\<^verbatim>\<open>checkCollisions\<close>, lines 315-359.\<close>

definition checkCollisions :: "rnd \<Rightarrow> game \<Rightarrow> game" where
  "checkCollisions rs g =
     (case canvasRef g of
        None \<Rightarrow> g
      | Some c \<Rightarrow>
          if boundary_hit c (the_monster g) then g\<lparr>gameState := Ended\<rparr>
          else
            (let g1 = g\<lparr>the_monster :=
                         (the_monster g)\<lparr>nearBoundary := near_boundary c (the_monster g)\<rparr>\<rparr>
             in fst (forEach_orbs g1 rs)))"

text \<open>
  What the drawing of a frame leaves behind, lines 819-826. \<^verbatim>\<open>drawBackground\<close> calls
  \<^verbatim>\<open>Math.random()\<close> three times for each of its 30 stars (lines 388-391), and
  \<^verbatim>\<open>drawOrbs\<close> adds \<open>0.1\<close> to the \<^verbatim>\<open>pulsePhase\<close> of every orb that is not collected (lines
  754-757), a hole being skipped. \<^verbatim>\<open>drawParticles\<close>, \<^verbatim>\<open>drawMonster\<close> and \<^verbatim>\<open>drawUI\<close> only
  read.
\<close>

definition drawOrbs :: "orb option list \<Rightarrow> orb option list" where
  "drawOrbs os =
     map (map_option (\<lambda>ob. if \<not> collected ob then ob\<lparr>pulsePhase := pulsePhase ob + 0.1\<rparr>
                            else ob)) os"

text \<open>
  \<^verbatim>\<open>gameLoop\<close>, lines 813-836: without a canvas it returns at once; otherwise it draws, and
  while the game is played it runs the three updates of lines 829-833. An exception in
  \<^verbatim>\<open>updateMonster\<close> ends the loop.
\<close>

definition gameLoop :: "rnd \<Rightarrow> game \<Rightarrow> error + game" where
  "gameLoop rs g =
     (case canvasRef g of
        None \<Rightarrow> Inr g
      | Some c \<Rightarrow>
          (let rs1 = rnd_drop 90 rs;
               g0 = g\<lparr>orbs := drawOrbs (orbs g)\<rparr>
           in if gameState g0 = Playing then
                (case updateMonster (canvasRef g0) (the_monster g0) of
                   Inl e \<Rightarrow> Inl e
                 | Inr m \<Rightarrow>
                     (let g1 = g0\<lparr>the_monster := m\<rparr>;
                          g2 = g1\<lparr>particles := updateParticles (particles g1)\<rparr>
                      in Inr (checkCollisions rs1 g2)))
              else Inr g0))"

text \<open>
  The callback of the timer effect, lines 948-962: the interval exists while the game is
  played and time is left.
\<close>

definition timer_tick :: "game \<Rightarrow> game" where
  "timer_tick g =
     (if gameState g = Playing \<and> 0 < timeLeft g then
        (if timeLeft g \<le> 1 then g\<lparr>gameState := Ended, timeLeft := 0\<rparr>
         else g\<lparr>timeLeft := timeLeft g - 1\<rparr>)
      else g)"

text \<open>
  \<^verbatim>\<open>startGame\<close>, lines 903-918. The tentacles draw their random numbers first (four for
  each of the 150 or 300), the orbs after them.
\<close>

definition startGame :: "real \<Rightarrow> rnd \<Rightarrow> game \<Rightarrow> error + game" where
  "startGame innerWidth rs g =
     (let g1 = g\<lparr>gameState := Playing, score := 0, timeLeft := 60\<rparr>
      in case initializeTentacles (canvasRef g1) innerWidth rs (the_monster g1) of
           Inl e \<Rightarrow> Inl e
         | Inr m \<Rightarrow>
             (let g2 = g1\<lparr>the_monster := m\<rparr>;
                  g3 = generateOrbs (rnd_drop (if innerWidth < 768 then 600 else 1200) rs) g2;
                  g4 = g3\<lparr>particles := []\<rparr>
              in case canvasRef g4 of
                   None \<Rightarrow> Inr g4
                 | Some c \<Rightarrow>
                     Inr (g4\<lparr>the_monster := (the_monster g4)
                            \<lparr>coreX := width c / 2, coreY := height c / 2,
                             mouseX := width c / 2, mouseY := height c / 2\<rparr>\<rparr>)))"

text \<open>
  \<^verbatim>\<open>resizeCanvas\<close>, lines 920-946, with the container's width and height as parameters.
\<close>

definition resizeCanvas :: "real \<Rightarrow> real \<Rightarrow> game \<Rightarrow> game" where
  "resizeCanvas containerWidth containerHeight g =
     (case canvasRef g of
        None \<Rightarrow> g
      | Some c \<Rightarrow>
          (let g1 = g\<lparr>canvasRef := Some \<lparr>width = containerWidth, height = containerHeight\<rparr>\<rparr>;
               m = the_monster g1;
               m1 = (if coreX m > containerWidth - 50 then m\<lparr>coreX := containerWidth / 2\<rparr> else m);
               m2 = (if coreY m1 > containerHeight - 50 then m1\<lparr>coreY := containerHeight / 2\<rparr> else m1)
           in g1\<lparr>the_monster := m2\<rparr>))"

text \<open>
  The pointer handlers, lines 848-901, with the position relative to the canvas as
  parameters. \<^verbatim>\<open>handleTouchEnd\<close> changes nothing.
\<close>

definition set_pointer :: "real \<Rightarrow> real \<Rightarrow> game \<Rightarrow> game" where
  "set_pointer mx my g =
     (case canvasRef g of
        None \<Rightarrow> g
      | Some c \<Rightarrow> g\<lparr>the_monster := (the_monster g)\<lparr>mouseX := mx, mouseY := my\<rparr>\<rparr>)"

definition handleMouseLeave :: "game \<Rightarrow> game" where
  "handleMouseLeave g = g\<lparr>the_monster := (the_monster g)\<lparr>mouseX := 0, mouseY := 0\<rparr>\<rparr>"

text \<open>
  What can happen to a mounted component, one event at a time. \<open>Timeout\<close> runs the oldest
  pending callback of \<^verbatim>\<open>setTimeout\<close>; all delays are equal, so they run in the order they
  were given.
\<close>

datatype event =
    Frame rnd
  | TimerTick
  | MouseMove real real
  | MouseLeave
  | TouchStart real real
  | TouchMove real real
  | TouchEnd
  | StartGame real rnd
  | Resize real real
  | Timeout rnd

fun step :: "event \<Rightarrow> game \<Rightarrow> error + game" where
  "step (Frame rs) g = gameLoop rs g"
| "step TimerTick g = Inr (timer_tick g)"
| "step (MouseMove mx my) g = Inr (set_pointer mx my g)"
| "step MouseLeave g = Inr (handleMouseLeave g)"
| "step (TouchStart mx my) g = Inr (set_pointer mx my g)"
| "step (TouchMove mx my) g = Inr (set_pointer mx my g)"
| "step TouchEnd g = Inr g"
| "step (StartGame innerWidth rs) g = startGame innerWidth rs g"
| "step (Resize w h) g = Inr (resizeCanvas w h g)"
| "step (Timeout rs) g =
     (case timeouts g of
        [] \<Rightarrow> Inr g
      | (delay, index) # rest \<Rightarrow> Inr (regenerateOrb index rs (g\<lparr>timeouts := rest\<rparr>)))"

fun run :: "event list \<Rightarrow> game \<Rightarrow> error + game" where
  "run [] g = Inr g"
| "run (e # es) g = (case step e g of Inl err \<Rightarrow> Inl err | Inr g' \<Rightarrow> run es g')"

section \<open>Predicates of the statements\<close>

text \<open>
  A tentacle as \<^verbatim>\<open>initializeTentacles\<close> builds it: \<open>numSegments\<close> counts its segments, there
  is at least one, and each has the length \<open>length / numSegments\<close>.
\<close>

definition tentacle_ok :: "tentacle \<Rightarrow> bool" where
  "tentacle_ok tn \<longleftrightarrow>
     numSegments tn = int (length (segments tn)) \<and> 1 \<le> numSegments tn
     \<and> (\<forall>s \<in> set (segments tn). slength s = tlength tn / real_of_int (numSegments tn))"

text \<open>
  The orb field between events: three orbs, no hole, and every pending respawn is for one of
  the three indices.
\<close>

definition orbs_ok :: "game \<Rightarrow> bool" where
  "orbs_ok g \<longleftrightarrow>
     length (orbs g) = 3 \<and> (\<forall>i < 3. orbs g ! i \<noteq> None) \<and> (\<forall>t \<in> set (timeouts g). snd t < 3)"

definition tentacles_ok :: "game \<Rightarrow> bool" where
  "tentacles_ok g \<longleftrightarrow> (\<forall>tn \<in> set (tentacles (the_monster g)). tentacle_ok tn)"

text \<open>
  The test of lines 343-347 on the orb at index \<open>i\<close>, what the callback leaves in its
  place in the array, the particles it pushes, and a particle lying at an orb's position.
\<close>

definition collides :: "game \<Rightarrow> nat \<Rightarrow> bool" where
  "collides g i \<longleftrightarrow>
     (case orbs g ! i of None \<Rightarrow> False
      | Some ob \<Rightarrow> \<not> collected ob \<and> touches (the_monster g) ob)"

definition collect :: "monster \<Rightarrow> orb option \<Rightarrow> orb option" where
  "collect m slot =
     (case slot of None \<Rightarrow> None
      | Some ob \<Rightarrow> if \<not> collected ob \<and> touches m ob then Some (ob\<lparr>collected := True\<rparr>) else Some ob)"

definition burst :: "orb option \<Rightarrow> rnd \<Rightarrow> particle list" where
  "burst slot rs =
     (case slot of None \<Rightarrow> []
      | Some ob \<Rightarrow> map (\<lambda>k. spawn (ox ob) (oy ob) (rnd_drop (4 * k) rs)) [0..<15])"

definition at_orb :: "particle \<Rightarrow> orb option \<Rightarrow> bool" where
  "at_orb p slot \<longleftrightarrow> (case slot of None \<Rightarrow> False | Some ob \<Rightarrow> ptx p = ox ob \<and> pty p = oy ob)"

section \<open>Sample data\<close>

text \<open>Concrete values on which the theorems below are instantiated.\<close>

definition particle_ex :: particle where
  "particle_ex = \<lparr>ptx = 3, pty = 4, vx = 1, vy = - 1, life = 1, maxLife = 30, psize = 2\<rparr>"

definition seg_a :: segment where
  "seg_a = \<lparr>pos = \<lparr>px = 0, py = 0\<rparr>, nextPos = \<lparr>px = 1, py = 0\<rparr>, slength = 1, angle = 0, first = True\<rparr>"

definition seg_b :: segment where
  "seg_b = \<lparr>pos = \<lparr>px = 1, py = 0\<rparr>, nextPos = \<lparr>px = 2, py = 0\<rparr>, slength = 1, angle = 0, first = False\<rparr>"

definition tentacle_ex :: tentacle where
  "tentacle_ex = \<lparr>tx = 0, ty = 0, tlength = 2, numSegments = 2, segments = [seg_a, seg_b],
                   target = \<lparr>px = 0, py = 0\<rparr>, rand = 1 / 2, tangle = 0, dt = 0\<rparr>"

definition canvas_ex :: canvas where
  "canvas_ex = \<lparr>width = 800, height = 600\<rparr>"

definition rnd_ex :: rnd where
  "rnd_ex n = 1 / 2"

definition monster_ex :: monster where
  "monster_ex = \<lparr>coreX = 400, coreY = 300, coreRadius = 15, tentacles = [tentacle_ex],
                  mouseX = 400, mouseY = 300, lastTarget = \<lparr>px = 400, py = 300\<rparr>,
                  targetErrorX = 0, targetErrorY = 0, autoMoveTime = 0, nearBoundary = False\<rparr>"

definition orb_near :: orb where
  "orb_near = \<lparr>ox = 400, oy = 300, radius = 10, pulsePhase = 0, collected = False\<rparr>"

definition orb_taken :: orb where
  "orb_taken = \<lparr>ox = 400, oy = 300, radius = 10, pulsePhase = 0, collected = True\<rparr>"

definition orb_far :: orb where
  "orb_far = \<lparr>ox = 100, oy = 300, radius = 10, pulsePhase = 0, collected = False\<rparr>"

definition game_ex :: game where
  "game_ex = \<lparr>the_monster = monster_ex, orbs = [Some orb_near, Some orb_taken, Some orb_far],
               particles = [], canvasRef = Some canvas_ex, gameState = Playing, score = 0,
               timeLeft = 60, timeouts = []\<rparr>"

text \<open>The core one pixel inside the band of the left edge.\<close>

definition game_left :: game where
  "game_left = game_ex\<lparr>the_monster := monster_ex\<lparr>coreX := 20\<rparr>\<rparr>"

text \<open>The core inside the warning band of the left edge, outside the band that ends the game.\<close>

definition game_near :: game where
  "game_near = game_ex\<lparr>the_monster := monster_ex\<lparr>coreX := 50\<rparr>\<rparr>"

text \<open>
  After a resize to a width of 720: an orb placed at \<open>x = 700\<close> on the wider canvas, and the
  core at \<open>x = 699\<close>, in the band of the right edge.
\<close>

definition orb_edge :: orb where
  "orb_edge = \<lparr>ox = 700, oy = 300, radius = 10, pulsePhase = 0, collected = False\<rparr>"

definition game_bh :: game where
  "game_bh = \<lparr>the_monster = monster_ex\<lparr>coreX := 699\<rparr>,
               orbs = [Some orb_edge, Some orb_taken, Some orb_far],
               particles = [], canvasRef = Some \<lparr>width = 720, height = 600\<rparr>,
               gameState = Playing, score = 0, timeLeft = 60, timeouts = []\<rparr>"





section \<open>The angle of a point\<close>

text \<open>
  \<open>atan2 y x\<close> as defined above is the polar angle of \<open>(x, y)\<close>: it lies in \<open>(-\<pi>, \<pi>]\<close>, and
  away from the origin its cosine and sine are \<open>x\<close> and \<open>y\<close> over the distance from the
  origin.
\<close>

lemma sqrt_ratio:
  assumes "xx \<noteq> 0"
  shows "sqrt (1 + (yy / xx) ^ 2) = sqrt (xx ^ 2 + yy ^ 2) / \<bar>xx\<bar>"
proof -
  from assms have "1 + (yy / xx) ^ 2 = (xx ^ 2 + yy ^ 2) / xx ^ 2"
    by (simp add: power_divide add_divide_distrib)
  then show ?thesis
    by (simp add: real_sqrt_divide)
qed

lemma arctan_polar:
  assumes "xx \<noteq> 0"
  shows "cos (arctan (yy / xx)) = \<bar>xx\<bar> / sqrt (xx ^ 2 + yy ^ 2)"
    "sin (arctan (yy / xx)) = (yy / xx) * \<bar>xx\<bar> / sqrt (xx ^ 2 + yy ^ 2)"
  using assms by (simp_all add: cos_arctan sin_arctan sqrt_ratio)

lemma atan2_polar:
  assumes "xx \<noteq> 0 \<or> yy \<noteq> 0"
  shows "cos (atan2 yy xx) = xx / sqrt (xx ^ 2 + yy ^ 2)
       \<and> sin (atan2 yy xx) = yy / sqrt (xx ^ 2 + yy ^ 2)"
proof -
  consider "0 < xx" | "xx < 0" "0 \<le> yy" | "xx < 0" "yy < 0" | "xx = 0" "0 < yy" | "xx = 0" "yy < 0"
    using assms by linarith
  then show ?thesis
  proof cases
    case 1
    then show ?thesis
      by (simp add: atan2_def arctan_polar)
  next
    case 2
    then show ?thesis
      by (simp add: atan2_def arctan_polar)
  next
    case 3
    then show ?thesis
      by (simp add: atan2_def arctan_polar)
  next
    case 4
    then show ?thesis
      by (simp add: atan2_def)
  next
    case 5
    then show ?thesis
      by (simp add: atan2_def)
  qed
qed

lemma atan2_range: "- pi < atan2 yy xx \<and> atan2 yy xx \<le> pi"
proof -
  have b: "- (pi / 2) < arctan (yy / xx)" "arctan (yy / xx) < pi / 2"
    by (rule arctan_lbound, rule arctan_ubound)
  have n: "arctan (yy / xx) \<le> 0" if "xx < 0" "0 \<le> yy"
  proof -
    from that have "yy / xx \<le> 0"
      by (simp add: divide_nonneg_neg)
    then show ?thesis
      by (simp add: arctan_le_zero_iff)
  qed
  have p: "0 < arctan (yy / xx)" if "xx < 0" "yy < 0"
  proof -
    from that have "0 < yy / xx"
      by (simp add: divide_neg_neg)
    then show ?thesis
      by (simp add: zero_less_arctan_iff)
  qed
  have h: "0 < pi"
    by simp
  show ?thesis
    using b n p h by (auto simp add: atan2_def)
qed

section \<open>Properties of a segment\<close>

lemma update_fields:
  "angle (update s tgt) = atan2 (py tgt - py (pos s)) (px tgt - px (pos s))"
  "slength (update s tgt) = slength s"
  "first (update s tgt) = first s"
  "px (pos (update s tgt)) = px tgt - slength s * cos (angle (update s tgt))"
  "py (pos (update s tgt)) = py tgt - slength s * sin (angle (update s tgt))"
  "px (nextPos (update s tgt)) = px (pos (update s tgt)) + slength s * cos (angle (update s tgt))"
  "py (nextPos (update s tgt)) = py (pos (update s tgt)) + slength s * sin (angle (update s tgt))"
  by (simp_all add: update_def Let_def)

lemma fallback_fields:
  "angle (fallback s tgt) = angle s"
  "slength (fallback s tgt) = slength s"
  "first (fallback s tgt) = first s"
  "px (pos (fallback s tgt)) = px tgt"
  "py (pos (fallback s tgt)) = py tgt"
  "px (nextPos (fallback s tgt)) = px tgt + slength s * cos (angle s)"
  "py (nextPos (fallback s tgt)) = py tgt + slength s * sin (angle s)"
  by (simp_all add: fallback_def Let_def)

lemma point_eqI: "px p = px q \<Longrightarrow> py p = py q \<Longrightarrow> p = (q::point)"
  by simp

lemma dist_scaled_unit: "dist2 (u - l * cos a) (v - l * sin a) u v = \<bar>l\<bar>"
proof -
  have "(l * cos a) ^ 2 + (l * sin a) ^ 2 = l ^ 2 * ((cos a) ^ 2 + (sin a) ^ 2)"
    unfolding power_mult_distrib distrib_left ..
  then have "(l * cos a) ^ 2 + (l * sin a) ^ 2 = l ^ 2"
    by simp
  then show ?thesis by (simp add: dist2_def)
qed

text \<open>
  Claim C1. After \<open>update s T\<close> the segment's angle is \<open>atan2 (T.y - pos.y) (T.x - pos.x)\<close>
  taken at the old position, its position is \<open>T - length \<sqdot> (cos angle, sin angle)\<close>, its
  \<open>nextPos\<close> is \<open>pos + length \<sqdot> (cos angle, sin angle)\<close> and equals \<open>T\<close>, and the distance
  from its position to \<open>T\<close> is the absolute value of its length: its length, for the lengths
  that are not negative (the program builds segments of length \<open>length / numSegments > 0\<close>
  only).
\<close>

theorem update_reaches_target:
  "nextPos (update s T) = T
   \<and> dist2 (px (pos (update s T))) (py (pos (update s T))) (px T) (py T) = \<bar>slength s\<bar>
   \<and> (0 \<le> slength s \<longrightarrow>
        dist2 (px (pos (update s T))) (py (pos (update s T))) (px T) (py T) = slength s)
   \<and> angle (update s T) = atan2 (py T - py (pos s)) (px T - px (pos s))
   \<and> pos (update s T) = \<lparr>px = px T - slength s * cos (angle (update s T)),
                            py = py T - slength s * sin (angle (update s T))\<rparr>
   \<and> nextPos (update s T) = tip_of (update s T)
   \<and> slength (update s T) = slength s"
proof -
  have n: "nextPos (update s T) = T"
    by (rule point_eqI) (simp_all add: update_fields)
  have d: "dist2 (px (pos (update s T))) (py (pos (update s T))) (px T) (py T) = \<bar>slength s\<bar>"
    by (simp add: update_fields(4,5) dist_scaled_unit)
  have p: "pos (update s T) = \<lparr>px = px T - slength s * cos (angle (update s T)),
                                py = py T - slength s * sin (angle (update s T))\<rparr>"
    by (rule point_eqI) (simp_all add: update_fields)
  have t: "nextPos (update s T) = tip_of (update s T)"
    by (rule point_eqI) (simp_all add: update_fields tip_of_def)
  show ?thesis
    using n d p t by (simp add: update_fields(1,2))
qed

theorem update_reaches_target_witness:
  "0 \<le> slength seg_a
   \<and> nextPos (update seg_a \<lparr>px = 5, py = 0\<rparr>) = \<lparr>px = 5, py = 0\<rparr>
   \<and> dist2 (px (pos (update seg_a \<lparr>px = 5, py = 0\<rparr>))) (py (pos (update seg_a \<lparr>px = 5, py = 0\<rparr>)))
        (px \<lparr>px = 5, py = 0\<rparr>) (py \<lparr>px = 5, py = 0\<rparr>) = slength seg_a
   \<and> slength seg_a = 1"
proof -
  have h: "0 \<le> slength seg_a" and v: "slength seg_a = 1"
    by (simp_all add: seg_a_def)
  from update_reaches_target [of seg_a "\<lparr>px = 5, py = 0\<rparr>"] h v show ?thesis
    by blast
qed

text \<open>
  Claim C4. A segment's \<open>nextPos\<close> is \<open>pos + length \<sqdot> (cos angle, sin angle)\<close> after
  construction, after \<open>update\<close> and after \<open>fallback\<close>; \<open>fallback\<close> puts \<open>pos\<close> at the
  given point and keeps the angle it finds; none of the three changes the length given at
  construction.
\<close>

theorem nextPos_invariant:
  "(TentacleSegment par len ang f = Inr s \<longrightarrow> nextPos s = tip_of s \<and> slength s = len)
   \<and> nextPos (update s T) = tip_of (update s T) \<and> slength (update s T) = slength s
   \<and> nextPos (fallback s T) = tip_of (fallback s T) \<and> slength (fallback s T) = slength s
   \<and> pos (fallback s T) = T \<and> angle (fallback s T) = angle s"
proof -
  have c: "TentacleSegment par len ang f = Inr s \<longrightarrow> nextPos s = tip_of s \<and> slength s = len"
    by (auto simp: TentacleSegment_def tip_of_def split: if_splits parent.splits sum.splits)
  have u: "nextPos (update s T) = tip_of (update s T)"
    by (rule point_eqI) (simp_all add: update_fields tip_of_def)
  have f: "nextPos (fallback s T) = tip_of (fallback s T)"
    by (rule point_eqI) (simp_all add: fallback_fields tip_of_def)
  have p: "pos (fallback s T) = T"
    by (rule point_eqI) (simp_all add: fallback_fields)
  show ?thesis using c u f p by (simp add: update_fields fallback_fields)
qed

theorem nextPos_invariant_witness:
  "TentacleSegment (ParentXY 0 0) 1 0 True = Inr seg_a
   \<and> nextPos seg_a = tip_of seg_a \<and> slength seg_a = 1
   \<and> nextPos (fallback seg_a \<lparr>px = 7, py = 7\<rparr>) = tip_of (fallback seg_a \<lparr>px = 7, py = 7\<rparr>)
   \<and> pos (fallback seg_a \<lparr>px = 7, py = 7\<rparr>) = \<lparr>px = 7, py = 7\<rparr>"
proof -
  have h: "TentacleSegment (ParentXY 0 0) 1 0 True = Inr seg_a"
    by (simp add: TentacleSegment_def seg_a_def)
  from nextPos_invariant [of "ParentXY 0 0" 1 0 True seg_a "\<lparr>px = 7, py = 7\<rparr>"] h show ?thesis
    by blast
qed

section \<open>Properties of the particles\<close>

lemma rnd_drop_0: "rnd_drop 0 rs = rs"
  by (simp add: rnd_drop_def)

lemma rnd_drop_add: "rnd_drop a (rnd_drop b rs) = rnd_drop (a + b) rs"
  by (simp add: rnd_drop_def add.assoc)

lemma rnd_ok_drop: "rnd_ok rs \<Longrightarrow> rnd_ok (rnd_drop k rs)"
  by (simp add: rnd_ok_def rnd_drop_def)

lemma createParticles_eq:
  "createParticles sx sy n rs ps =
     (ps @ map (\<lambda>k. spawn sx sy (rnd_drop (4 * k) rs)) [0..<n], rnd_drop (4 * n) rs)"
proof (induction n arbitrary: rs ps)
  case 0
  show ?case by (simp add: rnd_drop_0)
next
  case (Suc n)
  have "map (\<lambda>k. spawn sx sy (rnd_drop (4 * k) rs)) [0..<Suc n]
        = spawn sx sy rs # map (\<lambda>k. spawn sx sy (rnd_drop (4 * k) (rnd_drop 4 rs))) [0..<n]"
    by (simp add: upt_conv_Cons map_Suc_upt [symmetric] rnd_drop_add rnd_drop_0 add.commute del: upt_Suc)
  moreover have "rnd_drop (4 * n) (rnd_drop 4 rs) = rnd_drop (4 * Suc n) rs"
    by (simp add: rnd_drop_add add.commute)
  ultimately show ?case
    using Suc.IH [of "rnd_drop 4 rs" "ps @ [spawn sx sy rs]"] by simp
qed

lemma spawn_fields:
  "ptx (spawn sx sy rs) = sx" "pty (spawn sx sy rs) = sy" "life (spawn sx sy rs) = 1"
  "maxLife (spawn sx sy rs) = 30 + rs 2 * 20"
  by (simp_all add: spawn_def)

lemma particle_tick_fields:
  "ptx (particle_tick p) = ptx p + vx p"
  "pty (particle_tick p) = pty p + vy p"
  "vx (particle_tick p) = vx p * 0.98"
  "vy (particle_tick p) = vy p * 0.98"
  "life (particle_tick p) = life p - 1"
  "maxLife (particle_tick p) = maxLife p"
  "psize (particle_tick p) = psize p"
  by (simp_all add: particle_tick_def Let_def)

lemma updateParticles_filter:
  "updateParticles ps = filter (\<lambda>q. 0 < life q) (map particle_tick ps)"
  by (induction ps) (simp_all add: Let_def)

lemma updateParticles_append:
  "updateParticles (ps @ qs) = updateParticles ps @ updateParticles qs"
  by (simp add: updateParticles_filter)

lemma life_tick_pow: "life ((particle_tick ^^ n) p) = life p - real n"
  by (induction n) (simp_all add: particle_tick_fields)

lemma updateParticles_pow:
  "(updateParticles ^^ Suc n) ps
     = map (particle_tick ^^ Suc n) (filter (\<lambda>p. real (Suc n) < life p) ps)"
proof (induction n)
  case 0
  show ?case
    by (simp add: updateParticles_filter filter_map comp_def particle_tick_fields)
next
  case (Suc n)
  have "(updateParticles ^^ Suc (Suc n)) ps = updateParticles ((updateParticles ^^ Suc n) ps)"
    by simp
  also have "\<dots> = updateParticles (map (particle_tick ^^ Suc n) (filter (\<lambda>p. real (Suc n) < life p) ps))"
    by (simp only: Suc.IH)
  also have "\<dots> = map (particle_tick ^^ Suc (Suc n))
                     (filter (\<lambda>p. real (Suc (Suc n)) < life p) ps)"
  proof -
    have "(\<lambda>p. real (Suc n) < life p \<and> 0 < life (particle_tick ((particle_tick ^^ Suc n) p)))
          = (\<lambda>p. real (Suc (Suc n)) < life p)"
      by (rule ext) (auto simp add: particle_tick_fields life_tick_pow simp del: funpow.simps)
    then show ?thesis
      by (simp add: updateParticles_filter filter_map comp_def conj_commute del: funpow.simps)
        (simp add: comp_def)
  qed
  finally show ?case .
qed

lemma spawned_die:
  "updateParticles (map (\<lambda>k. spawn sx sy (rnd_drop (4 * k) rs)) ks) = []"
  by (induction ks) (simp_all add: Let_def particle_tick_fields spawn_fields)

text \<open>
  Claim C10. Every particle \<open>createParticles\<close> pushes has \<open>life = 1\<close> and \<open>maxLife \<ge> 30\<close>
  (the random numbers being in \<open>[0, 1)\<close>); the first \<open>updateParticles\<close> after the spawn
  brings its life to \<open>0\<close> and removes it, and until then it is drawn with an alpha, and a
  factor on its size, of \<open>1 / maxLife \<le> 1/30\<close>.
\<close>

theorem spawned_particles_last_one_tick:
  assumes "rnd_ok rs"
  shows "\<exists>new. fst (createParticles sx sy n rs ps) = ps @ new \<and> length new = n
           \<and> (\<forall>p \<in> set new. ptx p = sx \<and> pty p = sy \<and> life p = 1 \<and> 30 \<le> maxLife p
                  \<and> life (particle_tick p) = 0
                  \<and> draw_alpha p = 1 / maxLife p \<and> draw_alpha p \<le> 1 / 30
                  \<and> draw_radius p = psize p * draw_alpha p)
           \<and> updateParticles (ps @ new) = updateParticles ps"
proof -
  let ?new = "map (\<lambda>k. spawn sx sy (rnd_drop (4 * k) rs)) [0..<n]"
  have e: "fst (createParticles sx sy n rs ps) = ps @ ?new"
    by (simp add: createParticles_eq)
  have p: "ptx p = sx \<and> pty p = sy \<and> life p = 1 \<and> 30 \<le> maxLife p
             \<and> life (particle_tick p) = 0
             \<and> draw_alpha p = 1 / maxLife p \<and> draw_alpha p \<le> 1 / 30
             \<and> draw_radius p = psize p * draw_alpha p" if "p \<in> set ?new" for p
  proof -
    from that obtain k where k: "p = spawn sx sy (rnd_drop (4 * k) rs)"
      by auto
    have "0 \<le> rnd_drop (4 * k) rs 2"
      using assms by (simp add: rnd_ok_def rnd_drop_def)
    then have m: "30 \<le> maxLife p"
      by (simp add: k spawn_fields)
    then have "1 / maxLife p \<le> 1 / 30"
      by (simp add: field_simps)
    with m show ?thesis
      by (simp add: k spawn_fields particle_tick_fields draw_alpha_def draw_radius_def)
  qed
  have d: "updateParticles (ps @ ?new) = updateParticles ps"
    by (simp add: updateParticles_append spawned_die)
  have n: "length ?new = n"
    by simp
  from e n p d show ?thesis
    by blast
qed

theorem spawned_particles_last_one_tick_witness:
  "rnd_ok (\<lambda>n. 0)
   \<and> length (fst (createParticles 3 4 15 (\<lambda>n. 0) [])) = 15
   \<and> updateParticles (fst (createParticles 3 4 15 (\<lambda>n. 0) [])) = []"
proof -
  have h: "rnd_ok (\<lambda>n. 0)"
    by (simp add: rnd_ok_def)
  from spawned_particles_last_one_tick [OF h, of 3 4 15 "[]"] h show ?thesis
    by auto
qed

text \<open>
  Claim C8. One \<open>updateParticles\<close> multiplies each velocity component by \<open>0.98\<close>, takes \<open>1\<close>
  from the life and keeps exactly the particles whose new life is positive; so the list does
  not grow, and after \<open>n + 1\<close> updates what is left are the particles whose life was more
  than \<open>n + 1\<close>, each ticked \<open>n + 1\<close> times: nothing removed comes back. A particle is drawn
  with alpha \<open>life / maxLife\<close> and radius \<open>size \<sqdot> life / maxLife\<close>; a particle whose life is a
  positive whole number (every particle is created with life \<open>1\<close>) and whose \<open>maxLife\<close> is
  positive is removed by the very update that brings both to zero.
\<close>

theorem particles_decay:
  "vx (particle_tick p) = vx p * 0.98 \<and> vy (particle_tick p) = vy p * 0.98
   \<and> life (particle_tick p) = life p - 1
   \<and> updateParticles ps = filter (\<lambda>q. 0 < life q) (map particle_tick ps)
   \<and> length (updateParticles ps) \<le> length ps
   \<and> (updateParticles ^^ Suc n) ps
        = map (particle_tick ^^ Suc n) (filter (\<lambda>q. real (Suc n) < life q) ps)
   \<and> draw_alpha p = life p / maxLife p
   \<and> draw_radius p = psize p * (life p / maxLife p)
   \<and> (life p \<in> \<nat> \<and> 0 < life p \<and> 0 < maxLife p \<longrightarrow>
        (updateParticles [p] = [particle_tick p] \<and> 0 < draw_alpha (particle_tick p))
        \<or> (updateParticles [p] = [] \<and> draw_alpha (particle_tick p) = 0
              \<and> draw_radius (particle_tick p) = 0))"
proof -
  have l: "length (updateParticles ps) \<le> length ps"
    by (simp add: updateParticles_filter)
  have r: "(updateParticles [p] = [particle_tick p] \<and> 0 < draw_alpha (particle_tick p))
        \<or> (updateParticles [p] = [] \<and> draw_alpha (particle_tick p) = 0
              \<and> draw_radius (particle_tick p) = 0)"
    if "life p \<in> \<nat>" "0 < life p" "0 < maxLife p"
  proof -
    from that(1) obtain k where k: "life p = real k"
      by (auto simp: Nats_def)
    with that(2) have "k = 1 \<or> 1 < k"
      by auto
    then show ?thesis
    proof
      assume "k = 1"
      then show ?thesis
        by (simp add: k Let_def particle_tick_fields draw_alpha_def draw_radius_def)
    next
      assume "1 < k"
      then show ?thesis
        using that(3) by (simp add: k Let_def particle_tick_fields draw_alpha_def)
    qed
  qed
  show ?thesis
    using l r updateParticles_pow [of n ps]
    by (simp add: particle_tick_fields updateParticles_filter draw_alpha_def draw_radius_def
          del: funpow.simps)
qed

theorem particles_decay_witness:
  "life particle_ex \<in> \<nat> \<and> 0 < life particle_ex \<and> 0 < maxLife particle_ex
   \<and> updateParticles [particle_ex] = []
   \<and> draw_radius (particle_tick particle_ex) = 0
   \<and> vx (particle_tick particle_ex) = 0.98"
proof -
  have h: "life particle_ex \<in> \<nat> \<and> 0 < life particle_ex \<and> 0 < maxLife particle_ex"
    by (simp add: particle_ex_def)
  have "\<not> 0 < draw_alpha (particle_tick particle_ex)"
    by (simp add: particle_ex_def particle_tick_fields draw_alpha_def)
  with particles_decay [of particle_ex "[]" 0] h show ?thesis
    by (simp add: particle_ex_def)
qed

section \<open>Properties of a tentacle\<close>

lemma seg_at_Inr: "0 \<le> i \<Longrightarrow> i < int (length segs) \<Longrightarrow> seg_at segs i = Inr (segs ! nat i)"
  by (simp add: seg_at_def)

lemma ik_loop_result:
  "i + 1 < int (length segs) \<Longrightarrow>
   \<exists>segs'. ik_loop segs i = Inr segs' \<and> length segs' = length segs
     \<and> (\<forall>j. i < int j \<and> j < length segs \<longrightarrow> segs' ! j = segs ! j)
     \<and> (\<forall>j. int j \<le> i \<longrightarrow> segs' ! j = update (segs ! j) (pos (segs' ! Suc j)))"
proof (induction segs i rule: ik_loop.induct)
  case (1 segs i)
  show ?case
  proof (cases "0 \<le> i")
    case False
    then show ?thesis
      by (simp add: ik_loop.simps)
  next
    case True
    let ?k = "nat i"
    let ?segs1 = "segs[?k := update (segs ! ?k) (pos (segs ! Suc ?k))]"
    from True "1.prems" have a: "seg_at segs i = Inr (segs ! ?k)"
      by (simp add: seg_at_Inr)
    from True "1.prems" have b: "seg_at segs (i + 1) = Inr (segs ! Suc ?k)"
      by (simp add: seg_at_Inr nat_add_distrib)
    have unfold: "ik_loop segs i = ik_loop ?segs1 (i - 1)"
      using True a b by (subst ik_loop.simps) simp
    have "i - 1 + 1 < int (length ?segs1)"
      using "1.prems" by simp
    from "1.IH" [OF True a b this] obtain segs' where
      r: "ik_loop ?segs1 (i - 1) = Inr segs'" and
      l: "length segs' = length ?segs1" and
      above: "\<And>j. i - 1 < int j \<Longrightarrow> j < length ?segs1 \<Longrightarrow> segs' ! j = ?segs1 ! j" and
      below: "\<And>j. int j \<le> i - 1 \<Longrightarrow> segs' ! j = update (?segs1 ! j) (pos (segs' ! Suc j))"
      by blast
    have kl: "Suc ?k < length segs"
      using True "1.prems" by linarith
    have g1: "segs' ! j = segs ! j" if "i < int j" "j < length segs" for j
      using above [of j] that True by simp
    have g2: "segs' ! j = update (segs ! j) (pos (segs' ! Suc j))" if "int j \<le> i" for j
    proof (cases "j = ?k")
      case True
      have "segs' ! ?k = ?segs1 ! ?k"
        using above [of ?k] kl \<open>0 \<le> i\<close> by simp
      moreover have "segs' ! Suc ?k = segs ! Suc ?k"
        using above [of "Suc ?k"] kl \<open>0 \<le> i\<close> by simp
      ultimately show ?thesis
        using True kl by simp
    next
      case False
      with that have "int j \<le> i - 1"
        by linarith
      from below [OF this] False show ?thesis
        by simp
    qed
    from r l g1 g2 unfold show ?thesis
      by simp
  qed
qed

lemma fallback_loop_result:
  "1 \<le> i \<Longrightarrow> n = int (length segs) \<Longrightarrow>
   \<exists>segs'. fallback_loop segs i n = Inr segs' \<and> length segs' = length segs
     \<and> (\<forall>j. int j < i \<longrightarrow> segs' ! j = segs ! j)
     \<and> (\<forall>j. i \<le> int j \<and> j < length segs \<longrightarrow>
            segs' ! j = fallback (segs ! j) (nextPos (segs' ! (j - 1))))"
proof (induction segs i n rule: fallback_loop.induct)
  case (1 segs i n)
  show ?case
  proof (cases "i < n")
    case False
    with "1.prems" show ?thesis
      by (auto simp add: fallback_loop.simps)
  next
    case True
    let ?k = "nat i"
    let ?segs1 = "segs[?k := fallback (segs ! ?k) (nextPos (segs ! (?k - 1)))]"
    from True "1.prems" have a: "seg_at segs i = Inr (segs ! ?k)"
      by (simp add: seg_at_Inr)
    from True "1.prems" have b: "seg_at segs (i - 1) = Inr (segs ! (?k - 1))"
      by (simp add: seg_at_Inr nat_diff_distrib)
    have unfold: "fallback_loop segs i n = fallback_loop ?segs1 (i + 1) n"
      using True a b by (subst fallback_loop.simps) simp
    have p1: "1 \<le> i + 1" and p2: "n = int (length ?segs1)"
      using "1.prems" by simp_all
    from "1.IH" [OF True a b p1 p2] obtain segs' where
      r: "fallback_loop ?segs1 (i + 1) n = Inr segs'" and
      l: "length segs' = length ?segs1" and
      below: "\<And>j. int j < i + 1 \<Longrightarrow> segs' ! j = ?segs1 ! j" and
      above: "\<And>j. i + 1 \<le> int j \<Longrightarrow> j < length ?segs1 \<Longrightarrow>
                 segs' ! j = fallback (?segs1 ! j) (nextPos (segs' ! (j - 1)))"
      by blast
    have kl: "?k < length segs" "1 \<le> ?k"
      using True "1.prems" by linarith+
    have g1: "segs' ! j = segs ! j" if "int j < i" for j
      using below [of j] that by simp
    have g2: "segs' ! j = fallback (segs ! j) (nextPos (segs' ! (j - 1)))"
      if "i \<le> int j" "j < length segs" for j
    proof (cases "j = ?k")
      case True
      have "segs' ! ?k = ?segs1 ! ?k"
        using below [of ?k] kl by simp
      moreover have "segs' ! (?k - 1) = segs ! (?k - 1)"
        using g1 [of "?k - 1"] kl by linarith
      ultimately show ?thesis
        using True kl by simp
    next
      case False
      with that have "i + 1 \<le> int j"
        by linarith
      from above [OF this] that False show ?thesis
        by simp
    qed
    from r l g1 g2 unfold show ?thesis
      by simp
  qed
qed



lemma aim_fields:
  "tangle (aim T Tp tn) = atan2 (py T - ty tn) (px T - tx tn)"
  "dt (aim T Tp tn) = dist2 (px Tp) (py Tp) (px T) (py T) + 5"
  "tx (aim T Tp tn) = tx tn" "ty (aim T Tp tn) = ty tn"
  "tlength (aim T Tp tn) = tlength tn" "numSegments (aim T Tp tn) = numSegments tn"
  "segments (aim T Tp tn) = segments tn"
  by (simp_all add: aim_def Let_def)

lemma ik_pass_result:
  assumes "numSegments tn = int (length (segments tn))" and "1 \<le> numSegments tn"
  shows "\<exists>segs'. ik_pass T Tp tn = Inr ((aim T Tp tn)\<lparr>segments := segs'\<rparr>)
     \<and> length segs' = length (segments tn)
     \<and> segs' ! (length (segments tn) - 1)
         = update (segments tn ! (length (segments tn) - 1))
             (if px (lead T (aim T Tp tn)) \<noteq> 0 then lead T (aim T Tp tn) else T)
     \<and> (\<forall>j. Suc j < length (segments tn) \<longrightarrow>
           segs' ! j = update (segments tn ! j) (pos (segs' ! Suc j)))"
proof -
  let ?n = "length (segments tn)"
  let ?a = "aim T Tp tn"
  let ?goal = "if px (lead T ?a) \<noteq> 0 then lead T ?a else T"
  let ?segs1 = "(segments tn)[?n - 1 := update (segments tn ! (?n - 1)) ?goal]"
  from assms have n: "1 \<le> ?n"
    by simp
  have k: "nat (numSegments tn - 1) = ?n - 1"
    using assms by simp
  have ne: "segments tn \<noteq> []"
    using assms by auto
  have a: "seg_at (segments tn) (numSegments tn - 1) = Inr (segments tn ! (?n - 1))"
    using assms ne k by (simp add: seg_at_def)
  have "numSegments tn - 2 + 1 < int (length ?segs1)"
    using assms by simp
  from ik_loop_result [OF this] obtain segs' where
    r: "ik_loop ?segs1 (numSegments tn - 2) = Inr segs'" and
    l: "length segs' = length ?segs1" and
    above: "\<And>j. numSegments tn - 2 < int j \<Longrightarrow> j < length ?segs1 \<Longrightarrow> segs' ! j = ?segs1 ! j" and
    below: "\<And>j. int j \<le> numSegments tn - 2 \<Longrightarrow>
               segs' ! j = update (?segs1 ! j) (pos (segs' ! Suc j))"
    by blast
  have e: "ik_pass T Tp tn = Inr (?a\<lparr>segments := segs'\<rparr>)"
    using a r k by (simp add: ik_pass_def Let_def aim_fields)
  have t: "segs' ! (?n - 1) = update (segments tn ! (?n - 1)) ?goal"
    using above [of "?n - 1"] assms ne by simp
  have b: "segs' ! j = update (segments tn ! j) (pos (segs' ! Suc j))" if "Suc j < ?n" for j
  proof -
    from that assms have "int j \<le> numSegments tn - 2"
      by simp
    from below [OF this] that show ?thesis
      by simp
  qed
  have l': "length segs' = ?n"
    using l by simp
  from e l' t b show ?thesis
    by blast
qed

lemma fallback_pass_result:
  assumes "numSegments tn = int (length (segments tn))" and "1 \<le> numSegments tn"
  shows "\<exists>segs'. fallback_pass tn = Inr (tn\<lparr>segments := segs'\<rparr>)
     \<and> length segs' = length (segments tn)
     \<and> segs' ! 0 = fallback (segments tn ! 0) \<lparr>px = tx tn, py = ty tn\<rparr>
     \<and> (\<forall>j. 1 \<le> j \<and> j < length (segments tn) \<longrightarrow>
           segs' ! j = fallback (segments tn ! j) (nextPos (segs' ! (j - 1))))"
proof -
  let ?n = "length (segments tn)"
  let ?segs1 = "(segments tn)[0 := fallback (segments tn ! 0) \<lparr>px = tx tn, py = ty tn\<rparr>]"
  from assms have n: "1 \<le> ?n"
    by simp
  have ne: "segments tn \<noteq> []"
    using assms by auto
  have a: "seg_at (segments tn) 0 = Inr (segments tn ! 0)"
    using ne by (simp add: seg_at_def)
  have "(1::int) \<le> 1" and "numSegments tn = int (length ?segs1)"
    using assms by simp_all
  from fallback_loop_result [OF this] obtain segs' where
    r: "fallback_loop ?segs1 1 (numSegments tn) = Inr segs'" and
    l: "length segs' = length ?segs1" and
    below: "\<And>j. int j < 1 \<Longrightarrow> segs' ! j = ?segs1 ! j" and
    above: "\<And>j. 1 \<le> int j \<Longrightarrow> j < length ?segs1 \<Longrightarrow>
               segs' ! j = fallback (?segs1 ! j) (nextPos (segs' ! (j - 1)))"
    by blast
  have e: "fallback_pass tn = Inr (tn\<lparr>segments := segs'\<rparr>)"
    using a r by (simp add: fallback_pass_def)
  have z: "segs' ! 0 = fallback (segments tn ! 0) \<lparr>px = tx tn, py = ty tn\<rparr>"
    using below [of 0] ne by simp
  have b: "segs' ! j = fallback (segments tn ! j) (nextPos (segs' ! (j - 1)))"
    if "1 \<le> j" "j < ?n" for j
    using above [of j] that by simp
  have l': "length segs' = ?n"
    using l by simp
  from e l' z b show ?thesis
    by blast
qed







section \<open>Building and updating tentacles\<close>

lemma sum_list_const:
  "\<forall>s \<in> set xs. f s = (v::real) \<Longrightarrow> sum_list (map f xs) = real (length xs) * v"
  by (induction xs) (simp_all add: algebra_simps)

lemma tentacle_ok_sum:
  assumes "tentacle_ok tn"
  shows "sum_list (map slength (segments tn)) = tlength tn"
proof -
  from assms have n: "real (length (segments tn)) = real_of_int (numSegments tn)"
    and p: "0 < real_of_int (numSegments tn)"
    and c: "\<forall>s \<in> set (segments tn). slength s = tlength tn / real_of_int (numSegments tn)"
    by (auto simp add: tentacle_ok_def)
  from sum_list_const [OF c] n p show ?thesis
    by simp
qed

lemma push_segments_result:
  "i = int (length segs) \<Longrightarrow> 1 \<le> i \<Longrightarrow>
   \<exists>new. push_segments segs sl i n = Inr (segs @ new)
     \<and> int (length (segs @ new)) = max i n
     \<and> (\<forall>s \<in> set new. slength s = sl \<and> angle s = 0 \<and> \<not> first s \<and> nextPos s = tip_of s)
     \<and> (\<forall>j. length segs \<le> j \<and> j < length (segs @ new) \<longrightarrow>
           pos ((segs @ new) ! j) = nextPos ((segs @ new) ! (j - 1)))"
proof (induction segs sl i n rule: push_segments.induct)
  case (1 segs sl i n)
  show ?case
  proof (cases "i < n")
    case False
    then have "push_segments segs sl i n = Inr (segs @ [])"
      by (simp add: push_segments.simps)
    with False "1.prems" show ?thesis
      by (intro exI [of _ "[]"]) auto
  next
    case True
    from "1.prems" have ne: "segs \<noteq> []"
      by auto
    let ?p = "segs ! nat (i - 1)"
    let ?s = "\<lparr>pos = \<lparr>px = px (nextPos ?p), py = py (nextPos ?p)\<rparr>,
               nextPos = \<lparr>px = px (nextPos ?p) + sl * cos 0, py = py (nextPos ?p) + sl * sin 0\<rparr>,
               slength = sl, angle = 0, first = False\<rparr>"
    have a: "seg_at segs (i - 1) = Inr ?p"
      using "1.prems" ne by (simp add: seg_at_def)
    have b: "TentacleSegment (ParentSegment ?p) sl 0 False = Inr ?s"
      by (simp add: TentacleSegment_def)
    have unfold: "push_segments segs sl i n = push_segments (segs @ [?s]) sl (i + 1) n"
      using True a b by (subst push_segments.simps) simp
    have p1: "i + 1 = int (length (segs @ [?s]))" and p2: "1 \<le> i + 1"
      using "1.prems" by simp_all
    from "1.IH" [OF True a b p1 p2] obtain new where
      r: "push_segments (segs @ [?s]) sl (i + 1) n = Inr ((segs @ [?s]) @ new)" and
      l: "int (length ((segs @ [?s]) @ new)) = max (i + 1) n" and
      c: "\<forall>s \<in> set new. slength s = sl \<and> angle s = 0 \<and> \<not> first s \<and> nextPos s = tip_of s" and
      q: "\<And>j. length (segs @ [?s]) \<le> j \<Longrightarrow> j < length ((segs @ [?s]) @ new) \<Longrightarrow>
             pos (((segs @ [?s]) @ new) ! j) = nextPos (((segs @ [?s]) @ new) ! (j - 1))"
      by blast
    have k: "nat (i - 1) = length segs - 1"
      using "1.prems" by simp
    have e: "push_segments segs sl i n = Inr (segs @ (?s # new))"
      using unfold r by simp
    have l': "int (length (segs @ (?s # new))) = max i n"
      using l True by simp
    have c': "\<forall>s \<in> set (?s # new). slength s = sl \<and> angle s = 0 \<and> \<not> first s \<and> nextPos s = tip_of s"
      using c by (simp add: tip_of_def)
    have q': "pos ((segs @ (?s # new)) ! j) = nextPos ((segs @ (?s # new)) ! (j - 1))"
      if "length segs \<le> j" "j < length (segs @ (?s # new))" for j
    proof (cases "j = length segs")
      case True
      have "(segs @ (?s # new)) ! (length segs - 1) = segs ! (length segs - 1)"
        using ne by (simp add: nth_append)
      moreover have "nextPos (segs ! (length segs - 1)) = pos ?s"
        by (simp add: k)
      ultimately show ?thesis
        using True by (simp add: nth_append)
    next
      case False
      with that have "length (segs @ [?s]) \<le> j" "j < length ((segs @ [?s]) @ new)"
        by simp_all
      from q [OF this] show ?thesis
        by simp
    qed
    from e l' c' q' show ?thesis
      by blast
  qed
qed

lemma new_tentacle_result:
  assumes "1 \<le> numSegs"
  shows "\<exists>tn. new_tentacle c maxLength minLength numSegs rs = Inr tn \<and> tentacle_ok tn
     \<and> numSegments tn = numSegs
     \<and> tlength tn = rs 0 * (maxLength - minLength) + minLength
     \<and> tx tn = rs 1 * width c \<and> ty tn = rs 2 * height c
     \<and> pos (segments tn ! 0) = \<lparr>px = tx tn, py = ty tn\<rparr>
     \<and> (\<forall>j. 1 \<le> j \<and> j < length (segments tn) \<longrightarrow>
           pos (segments tn ! j) = nextPos (segments tn ! (j - 1)))
     \<and> (\<forall>s \<in> set (segments tn). angle s = 0 \<and> nextPos s = tip_of s)"
proof -
  let ?len = "rs 0 * (maxLength - minLength) + minLength"
  let ?sl = "?len / real_of_int numSegs"
  let ?s0 = "\<lparr>pos = \<lparr>px = rs 1 * width c, py = rs 2 * height c\<rparr>,
              nextPos = \<lparr>px = rs 1 * width c + ?sl * cos 0, py = rs 2 * height c + ?sl * sin 0\<rparr>,
              slength = ?sl, angle = 0, first = True\<rparr>"
  let ?tn = "\<lparr>tx = rs 1 * width c, ty = rs 2 * height c, tlength = ?len,
              numSegments = numSegs, segments = [], target = \<lparr>px = 0, py = 0\<rparr>,
              rand = rs 3, tangle = 0, dt = 0\<rparr>"
  have b: "TentacleSegment (ParentXY (rs 1 * width c) (rs 2 * height c)) ?sl 0 True = Inr ?s0"
    by (simp add: TentacleSegment_def)
  have "(1::int) = int (length [?s0])" and "(1::int) \<le> 1"
    by simp_all
  from push_segments_result [OF this, of ?sl numSegs] obtain new where
    r: "push_segments [?s0] ?sl 1 numSegs = Inr ([?s0] @ new)" and
    l: "int (length ([?s0] @ new)) = max 1 numSegs" and
    c: "\<forall>s \<in> set new. slength s = ?sl \<and> angle s = 0 \<and> \<not> first s \<and> nextPos s = tip_of s" and
    q: "\<And>j. length [?s0] \<le> j \<Longrightarrow> j < length ([?s0] @ new) \<Longrightarrow>
           pos (([?s0] @ new) ! j) = nextPos (([?s0] @ new) ! (j - 1))"
    by blast
  let ?res = "?tn\<lparr>segments := ?s0 # new\<rparr>"
  have e: "new_tentacle c maxLength minLength numSegs rs = Inr ?res"
    using b r by (simp add: new_tentacle_def Let_def)
  have ok: "tentacle_ok ?res"
    using l c assms by (simp add: tentacle_ok_def)
  have q': "\<forall>j. 1 \<le> j \<and> j < length (segments ?res) \<longrightarrow>
           pos (segments ?res ! j) = nextPos (segments ?res ! (j - 1))"
    using q by simp
  have c': "\<forall>s \<in> set (segments ?res). angle s = 0 \<and> nextPos s = tip_of s"
    using c by (simp add: tip_of_def)
  have f: "numSegments ?res = numSegs" "tlength ?res = ?len" "tx ?res = rs 1 * width c"
    "ty ?res = rs 2 * height c" "pos (segments ?res ! 0) = \<lparr>px = tx ?res, py = ty ?res\<rparr>"
    by simp_all
  from e ok f q' c' show ?thesis
    by blast
qed

lemma array_from_tentacles_result:
  assumes "1 \<le> numSegs"
  shows "\<exists>tns. array_from_tentacles k c maxLength minLength numSegs rs = Inr tns
     \<and> length tns = k \<and> (\<forall>tn \<in> set tns. tentacle_ok tn \<and> numSegments tn = numSegs)"
proof (induction k arbitrary: rs)
  case 0
  show ?case by simp
next
  case (Suc k)
  from new_tentacle_result [OF assms, of c maxLength minLength rs] obtain tn where
    t: "new_tentacle c maxLength minLength numSegs rs = Inr tn" "tentacle_ok tn"
       "numSegments tn = numSegs"
    by blast
  from Suc [of "rnd_drop 4 rs"] obtain tns where
    r: "array_from_tentacles k c maxLength minLength numSegs (rnd_drop 4 rs) = Inr tns"
       "length tns = k" "\<forall>tn \<in> set tns. tentacle_ok tn \<and> numSegments tn = numSegs"
    by blast
  from t r show ?case
    by simp
qed

lemma initializeTentacles_result:
  "\<exists>tns. initializeTentacles (Some c) innerWidth rs m = Inr (m\<lparr>tentacles := tns\<rparr>)
     \<and> length tns = (if innerWidth < 768 then 150 else 300)
     \<and> (\<forall>tn \<in> set tns. tentacle_ok tn
           \<and> numSegments tn = (if innerWidth < 768 then 20 else 30))"
proof (cases "innerWidth < 768")
  case True
  have "(1::int) \<le> 20" by simp
  from array_from_tentacles_result [OF this, of 150 c 200 30 rs] True show ?thesis
    by (auto simp add: initializeTentacles_def)
next
  case False
  have "(1::int) \<le> 30" by simp
  from array_from_tentacles_result [OF this, of 300 c 300 50 rs] False show ?thesis
    by (auto simp add: initializeTentacles_def)
qed

lemma tentacle_ok_cong:
  assumes "tentacle_ok tn" and "numSegments tn' = numSegments tn" and "tlength tn' = tlength tn"
    and "map slength (segments tn') = map slength (segments tn)"
  shows "tentacle_ok tn'"
proof -
  from assms(4) have l: "length (segments tn') = length (segments tn)"
    by (rule map_eq_imp_length_eq)
  have "slength s = tlength tn / real_of_int (numSegments tn)" if "s \<in> set (segments tn')" for s
  proof -
    from that have "slength s \<in> set (map slength (segments tn'))"
      by simp
    with assms(4) obtain s0 where "s0 \<in> set (segments tn)" "slength s0 = slength s"
      by auto
    with assms(1) show ?thesis
      by (auto simp add: tentacle_ok_def)
  qed
  with assms l show ?thesis
    by (simp add: tentacle_ok_def)
qed

lemma ik_pass_keeps:
  assumes "tentacle_ok tn"
  shows "\<exists>tn'. ik_pass T Tp tn = Inr tn' \<and> numSegments tn' = numSegments tn
     \<and> tlength tn' = tlength tn \<and> tx tn' = tx tn \<and> ty tn' = ty tn
     \<and> map slength (segments tn') = map slength (segments tn)"
proof -
  from assms have w: "numSegments tn = int (length (segments tn))" "1 \<le> numSegments tn"
    by (simp_all add: tentacle_ok_def)
  from ik_pass_result [OF w, of T Tp] obtain segs' where
    e: "ik_pass T Tp tn = Inr ((aim T Tp tn)\<lparr>segments := segs'\<rparr>)" and
    l: "length segs' = length (segments tn)" and
    t: "segs' ! (length (segments tn) - 1)
         = update (segments tn ! (length (segments tn) - 1))
             (if px (lead T (aim T Tp tn)) \<noteq> 0 then lead T (aim T Tp tn) else T)" and
    b: "\<And>j. Suc j < length (segments tn) \<Longrightarrow>
           segs' ! j = update (segments tn ! j) (pos (segs' ! Suc j))"
    by blast
  have "slength (segs' ! j) = slength (segments tn ! j)" if "j < length (segments tn)" for j
  proof (cases "Suc j < length (segments tn)")
    case True
    from b [OF this] show ?thesis
      by (simp add: update_fields)
  next
    case False
    with that have "j = length (segments tn) - 1"
      by simp
    with t show ?thesis
      by (simp add: update_fields)
  qed
  with l have "map slength segs' = map slength (segments tn)"
    by (simp add: list_eq_iff_nth_eq)
  with e show ?thesis
    by (simp add: aim_fields)
qed

lemma fallback_pass_keeps:
  assumes "tentacle_ok tn"
  shows "\<exists>tn'. fallback_pass tn = Inr tn' \<and> numSegments tn' = numSegments tn
     \<and> tlength tn' = tlength tn \<and> tx tn' = tx tn \<and> ty tn' = ty tn
     \<and> map slength (segments tn') = map slength (segments tn)"
proof -
  from assms have w: "numSegments tn = int (length (segments tn))" "1 \<le> numSegments tn"
    by (simp_all add: tentacle_ok_def)
  from fallback_pass_result [OF w] obtain segs' where
    e: "fallback_pass tn = Inr (tn\<lparr>segments := segs'\<rparr>)" and
    l: "length segs' = length (segments tn)" and
    z: "segs' ! 0 = fallback (segments tn ! 0) \<lparr>px = tx tn, py = ty tn\<rparr>" and
    b: "\<And>j. 1 \<le> j \<Longrightarrow> j < length (segments tn) \<Longrightarrow>
           segs' ! j = fallback (segments tn ! j) (nextPos (segs' ! (j - 1)))"
    by blast
  have "slength (segs' ! j) = slength (segments tn ! j)" if "j < length (segments tn)" for j
  proof (cases "j = 0")
    case True
    with z show ?thesis
      by (simp add: fallback_fields)
  next
    case False
    then have "1 \<le> j" by simp
    from b [OF this that] show ?thesis
      by (simp add: fallback_fields)
  qed
  with l have "map slength segs' = map slength (segments tn)"
    by (simp add: list_eq_iff_nth_eq)
  with e show ?thesis
    by simp
qed

lemma update_tentacle_keeps:
  assumes "tentacle_ok tn"
  shows "\<exists>tn'. update_tentacle T Tp tn = Inr tn' \<and> tentacle_ok tn'
     \<and> numSegments tn' = numSegments tn \<and> tlength tn' = tlength tn
     \<and> tx tn' = tx tn \<and> ty tn' = ty tn
     \<and> map slength (segments tn') = map slength (segments tn)"
proof -
  from ik_pass_keeps [OF assms, of T Tp] obtain ik where
    i: "ik_pass T Tp tn = Inr ik" "numSegments ik = numSegments tn" "tlength ik = tlength tn"
       "tx ik = tx tn" "ty ik = ty tn" "map slength (segments ik) = map slength (segments tn)"
    by blast
  from tentacle_ok_cong [OF assms i(2,3,6)] have ok: "tentacle_ok ik" .
  show ?thesis
  proof (cases "in_reach T Tp ik")
    case False
    with i ok show ?thesis
      by (simp add: update_tentacle_def)
  next
    case True
    from fallback_pass_keeps [OF ok] obtain fb where
      f: "fallback_pass ik = Inr fb" "numSegments fb = numSegments ik" "tlength fb = tlength ik"
         "tx fb = tx ik" "ty fb = ty ik" "map slength (segments fb) = map slength (segments ik)"
      by blast
    from tentacle_ok_cong [OF ok f(2,3,6)] have "tentacle_ok fb" .
    with True i f show ?thesis
      by (simp add: update_tentacle_def)
  qed
qed

lemma forEach_tentacles_keeps:
  "\<forall>tn \<in> set tns. tentacle_ok tn \<Longrightarrow>
   \<exists>tns'. forEach_tentacles T Tp tns = Inr tns' \<and> length tns' = length tns
     \<and> (\<forall>tn \<in> set tns'. tentacle_ok tn)
     \<and> map tlength tns' = map tlength tns \<and> map numSegments tns' = map numSegments tns
     \<and> map (\<lambda>tn. map slength (segments tn)) tns' = map (\<lambda>tn. map slength (segments tn)) tns"
proof (induction tns)
  case Nil
  show ?case by simp
next
  case (Cons tn tns)
  then have "tentacle_ok tn" and "\<forall>tn \<in> set tns. tentacle_ok tn"
    by simp_all
  from update_tentacle_keeps [OF this(1), of T Tp] Cons.IH [OF this(2)] show ?case
    by auto
qed

lemma move_core_tentacles: "tentacles (move_core c m) = tentacles m"
  by (simp add: move_core_def Let_def)

lemma updateMonster_keeps:
  assumes "\<forall>tn \<in> set (tentacles m). tentacle_ok tn"
  shows "\<exists>tns'. updateMonster (Some c) m
        = Inr ((move_core c m)\<lparr>tentacles := tns',
                 lastTarget := \<lparr>px = coreX (move_core c m), py = coreY (move_core c m)\<rparr>\<rparr>)
     \<and> length tns' = length (tentacles m) \<and> (\<forall>tn \<in> set tns'. tentacle_ok tn)
     \<and> map tlength tns' = map tlength (tentacles m)
     \<and> map numSegments tns' = map numSegments (tentacles m)
     \<and> map (\<lambda>tn. map slength (segments tn)) tns'
         = map (\<lambda>tn. map slength (segments tn)) (tentacles m)"
proof -
  let ?m = "move_core c m"
  let ?T = "\<lparr>px = coreX ?m, py = coreY ?m\<rparr>"
  from assms have "\<forall>tn \<in> set (tentacles ?m). tentacle_ok tn"
    by (simp add: move_core_tentacles)
  from forEach_tentacles_keeps [OF this, of ?T "lastTarget ?m"] obtain tns' where
    "forEach_tentacles ?T (lastTarget ?m) (tentacles ?m) = Inr tns'"
    "length tns' = length (tentacles ?m)" "\<forall>tn \<in> set tns'. tentacle_ok tn"
    "map tlength tns' = map tlength (tentacles ?m)"
    "map numSegments tns' = map numSegments (tentacles ?m)"
    "map (\<lambda>tn. map slength (segments tn)) tns'
         = map (\<lambda>tn. map slength (segments tn)) (tentacles ?m)"
    by blast
  then show ?thesis
    by (intro exI [of _ tns']) (simp add: updateMonster_def Let_def move_core_tentacles)
qed

section \<open>The orb loop\<close>

lemma orb_callback_eq:
  "orb_callback i (g, rs) =
     (if collides g i
      then (g\<lparr>orbs := (orbs g)[i := collect (the_monster g) (orbs g ! i)],
              score := score g + 1,
              particles := particles g @ burst (orbs g ! i) rs,
              timeouts := timeouts g @ [(500, i)]\<rparr>, rnd_drop 60 rs)
      else (g, rs))"
  by (cases "orbs g ! i")
    (simp_all add: orb_callback_def collides_def collect_def burst_def Let_def createParticles_eq)


lemma collect_idle: "\<not> collides g i \<Longrightarrow> collect (the_monster g) (orbs g ! i) = orbs g ! i"
  by (auto simp add: collides_def collect_def split: option.splits)

lemma callback_frame:
  assumes "orb_callback i (g, rs) = (g1, rs1)"
  shows "the_monster g1 = the_monster g" "canvasRef g1 = canvasRef g"
    "gameState g1 = gameState g" "timeLeft g1 = timeLeft g"
    "length (orbs g1) = length (orbs g)"
    "j \<noteq> i \<Longrightarrow> orbs g1 ! j = orbs g ! j"
    "i < length (orbs g) \<Longrightarrow> orbs g1 ! i = collect (the_monster g) (orbs g ! i)"
    "score g1 = score g + (if collides g i then 1 else 0)"
    "timeouts g1 = timeouts g @ (if collides g i then [(500, i)] else [])"
    "particles g1 = particles g @ (if collides g i then burst (orbs g ! i) rs else [])"
  using assms by (auto simp add: orb_callback_eq collect_idle split: if_splits)

lemma callback_collides:
  assumes "orb_callback i (g, rs) = (g1, rs1)" and "j \<noteq> i"
  shows "collides g1 j = collides g j"
  using callback_frame(1) [OF assms(1)] callback_frame(6) [OF assms(1) assms(2)]
  by (simp add: collides_def split: option.splits)

lemma filter_collides:
  assumes "orb_callback i (g, rs) = (g1, rs1)" and "i \<notin> set js"
  shows "filter (collides g1) js = filter (collides g) js"
proof (rule filter_cong [OF refl])
  fix k
  assume "k \<in> set js"
  with assms(2) have "k \<noteq> i"
    by auto
  from callback_collides [OF assms(1) this] show "collides g1 k = collides g k" .
qed

lemma fold_frame:
  "fold orb_callback js (g, rs) = (g', rs') \<Longrightarrow>
   the_monster g' = the_monster g \<and> canvasRef g' = canvasRef g
   \<and> gameState g' = gameState g \<and> timeLeft g' = timeLeft g
   \<and> length (orbs g') = length (orbs g)
   \<and> (\<forall>j. j \<notin> set js \<longrightarrow> orbs g' ! j = orbs g ! j)"
proof (induction js arbitrary: g rs)
  case Nil
  then show ?case by simp
next
  case (Cons i js)
  obtain g1 rs1 where s: "orb_callback i (g, rs) = (g1, rs1)"
    by (cases "orb_callback i (g, rs)")
  with Cons.prems have "fold orb_callback js (g1, rs1) = (g', rs')"
    by simp
  from Cons.IH [OF this] callback_frame(1-6) [OF s] show ?case
    by simp
qed

lemma fold_orbs:
  "fold orb_callback js (g, rs) = (g', rs') \<Longrightarrow> distinct js \<Longrightarrow>
   \<forall>j \<in> set js. j < length (orbs g) \<Longrightarrow>
   \<forall>j \<in> set js. orbs g' ! j = collect (the_monster g) (orbs g ! j)"
proof (induction js arbitrary: g rs)
  case Nil
  then show ?case by simp
next
  case (Cons i js)
  obtain g1 rs1 where s: "orb_callback i (g, rs) = (g1, rs1)"
    by (cases "orb_callback i (g, rs)")
  with Cons.prems have f: "fold orb_callback js (g1, rs1) = (g', rs')"
    by simp
  from Cons.prems have d: "distinct js" "i \<notin> set js" "i < length (orbs g)"
    by simp_all
  have b: "\<forall>j \<in> set js. j < length (orbs g1)"
    using Cons.prems(3) callback_frame(5) [OF s] by simp
  have tail: "orbs g' ! j = collect (the_monster g) (orbs g ! j)" if "j \<in> set js" for j
  proof -
    from that d have "j \<noteq> i" by auto
    with Cons.IH [OF f d(1) b] that callback_frame(1) [OF s] callback_frame(6) [OF s, of j]
    show ?thesis by simp
  qed
  have "orbs g' ! i = orbs g1 ! i"
    using fold_frame [OF f] d(2) by simp
  then have "orbs g' ! i = collect (the_monster g) (orbs g ! i)"
    using callback_frame(7) [OF s d(3)] by simp
  with tail show ?case
    by simp
qed

lemma fold_score:
  "fold orb_callback js (g, rs) = (g', rs') \<Longrightarrow> distinct js \<Longrightarrow>
   score g' = score g + int (length (filter (collides g) js))
   \<and> timeouts g' = timeouts g @ map (Pair 500) (filter (collides g) js)"
proof (induction js arbitrary: g rs)
  case Nil
  then show ?case by simp
next
  case (Cons i js)
  obtain g1 rs1 where s: "orb_callback i (g, rs) = (g1, rs1)"
    by (cases "orb_callback i (g, rs)")
  with Cons.prems have f: "fold orb_callback js (g1, rs1) = (g', rs')"
    by simp
  from Cons.prems have d: "distinct js" "i \<notin> set js"
    by simp_all
  from Cons.IH [OF f d(1)] filter_collides [OF s d(2)]
    callback_frame(8) [OF s] callback_frame(9) [OF s]
  show ?case by simp
qed

lemma burst_facts:
  assumes "collides g i"
  shows "length (burst (orbs g ! i) rs) = 15"
    "\<forall>p \<in> set (burst (orbs g ! i) rs). life p = 1 \<and> at_orb p (orbs g ! i)"
  using assms
  by (auto simp add: burst_def collides_def at_orb_def spawn_fields split: option.splits)

lemma fold_particles:
  "fold orb_callback js (g, rs) = (g', rs') \<Longrightarrow> distinct js \<Longrightarrow>
   \<exists>new. particles g' = particles g @ new
     \<and> length new = 15 * length (filter (collides g) js)
     \<and> (\<forall>p \<in> set new. life p = 1 \<and> (\<exists>i \<in> set js. collides g i \<and> at_orb p (orbs g ! i)))
     \<and> (\<forall>i \<in> set js. collides g i \<longrightarrow> (\<exists>p \<in> set new. at_orb p (orbs g ! i)))"
proof (induction js arbitrary: g rs)
  case Nil
  then show ?case by simp
next
  case (Cons i js)
  obtain g1 rs1 where s: "orb_callback i (g, rs) = (g1, rs1)"
    by (cases "orb_callback i (g, rs)")
  with Cons.prems have f: "fold orb_callback js (g1, rs1) = (g', rs')"
    by simp
  from Cons.prems have d: "distinct js" "i \<notin> set js"
    by simp_all
  from Cons.IH [OF f d(1)] obtain new where
    n1: "particles g' = particles g1 @ new" and
    n2: "length new = 15 * length (filter (collides g1) js)" and
    n3: "\<And>p. p \<in> set new \<Longrightarrow> life p = 1 \<and> (\<exists>k \<in> set js. collides g1 k \<and> at_orb p (orbs g1 ! k))" and
    n4: "\<And>k. k \<in> set js \<Longrightarrow> collides g1 k \<Longrightarrow> \<exists>p \<in> set new. at_orb p (orbs g1 ! k)"
    by blast
  have same: "collides g1 k = collides g k \<and> orbs g1 ! k = orbs g ! k" if "k \<in> set js" for k
  proof -
    from that d have "k \<noteq> i" by auto
    then show ?thesis
      using callback_collides [OF s] callback_frame(6) [OF s] by simp
  qed
  let ?b = "if collides g i then burst (orbs g ! i) rs else []"
  have m1: "particles g' = particles g @ (?b @ new)"
    using n1 callback_frame(10) [OF s] by simp
  have m2: "length (?b @ new) = 15 * length (filter (collides g) (i # js))"
    using n2 filter_collides [OF s d(2)] burst_facts(1) [of g i rs] by simp
  have m3: "life p = 1 \<and> (\<exists>k \<in> set (i # js). collides g k \<and> at_orb p (orbs g ! k))"
    if "p \<in> set (?b @ new)" for p
  proof (cases "p \<in> set new")
    case True
    from n3 [OF this] same show ?thesis
      by auto
  next
    case False
    with that have c: "collides g i" and "p \<in> set (burst (orbs g ! i) rs)"
      by (auto split: if_splits)
    with burst_facts(2) [OF c, of rs] show ?thesis
      by auto
  qed
  have m4: "\<exists>p \<in> set (?b @ new). at_orb p (orbs g ! k)"
    if "k \<in> set (i # js)" "collides g k" for k
  proof (cases "k = i")
    case True
    with that burst_facts [of g i rs] have "burst (orbs g ! i) rs \<noteq> []"
      by auto
    then obtain p where "p \<in> set (burst (orbs g ! i) rs)"
      by (cases "burst (orbs g ! i) rs") auto
    with that True burst_facts(2) [of g i rs] show ?thesis
      by auto
  next
    case False
    with that have "k \<in> set js" by simp
    with n4 [of k] same [of k] that show ?thesis
      by auto
  qed
  from m1 m2 m3 m4 show ?case
    by blast
qed

lemma at_orb_iff:
  "at_orb p slot \<longleftrightarrow> (\<exists>ob. slot = Some ob \<and> ptx p = ox ob \<and> pty p = oy ob)"
  by (cases slot) (simp_all add: at_orb_def)

lemma fold_blocks:
  "fold orb_callback js (g, rs) = (g', rs') \<Longrightarrow> distinct js \<Longrightarrow>
   \<exists>blocks. particles g' = particles g @ concat blocks
     \<and> list_all2 (\<lambda>i b. length b = 15 \<and> (\<forall>p \<in> set b. life p = 1 \<and> at_orb p (orbs g ! i)))
          (filter (collides g) js) blocks"
proof (induction js arbitrary: g rs)
  case Nil
  then show ?case by simp
next
  case (Cons i js)
  obtain g1 rs1 where s: "orb_callback i (g, rs) = (g1, rs1)"
    by (cases "orb_callback i (g, rs)")
  with Cons.prems have f: "fold orb_callback js (g1, rs1) = (g', rs')"
    by simp
  from Cons.prems have d: "distinct js" "i \<notin> set js"
    by simp_all
  from Cons.IH [OF f d(1)] obtain blocks where
    n1: "particles g' = particles g1 @ concat blocks" and
    n2: "list_all2 (\<lambda>k b. length b = 15 \<and> (\<forall>p \<in> set b. life p = 1 \<and> at_orb p (orbs g1 ! k)))
          (filter (collides g1) js) blocks"
    by blast
  have same: "orbs g1 ! k = orbs g ! k" if "k \<in> set (filter (collides g) js)" for k
  proof -
    from that d have "k \<noteq> i" by auto
    then show ?thesis
      using callback_frame(6) [OF s] by simp
  qed
  from n2 have "list_all2 (\<lambda>k b. length b = 15 \<and> (\<forall>p \<in> set b. life p = 1 \<and> at_orb p (orbs g1 ! k)))
          (filter (collides g) js) blocks"
    by (simp add: filter_collides [OF s d(2)])
  then have n3: "list_all2 (\<lambda>k b. length b = 15 \<and> (\<forall>p \<in> set b. life p = 1 \<and> at_orb p (orbs g ! k)))
          (filter (collides g) js) blocks"
    by (rule list.rel_mono_strong) (simp add: same)
  show ?case
  proof (cases "collides g i")
    case True
    have "particles g' = particles g @ concat (burst (orbs g ! i) rs # blocks)"
      using n1 callback_frame(10) [OF s] True by simp
    moreover have "list_all2 (\<lambda>k b. length b = 15 \<and> (\<forall>p \<in> set b. life p = 1 \<and> at_orb p (orbs g ! k)))
          (filter (collides g) (i # js)) (burst (orbs g ! i) rs # blocks)"
      using n3 True burst_facts [OF True, of rs] by simp
    ultimately show ?thesis
      by blast
  next
    case False
    have "particles g' = particles g @ concat blocks"
      using n1 callback_frame(10) [OF s] False by simp
    moreover have "list_all2 (\<lambda>k b. length b = 15 \<and> (\<forall>p \<in> set b. life p = 1 \<and> at_orb p (orbs g ! k)))
          (filter (collides g) (i # js)) blocks"
      using n3 False by simp
    ultimately show ?thesis
      by blast
  qed
qed

lemma touches_flag: "touches (m\<lparr>nearBoundary := b\<rparr>) ob = touches m ob"
  by (simp add: touches_def)

lemma collides_flag:
  "collides (g\<lparr>the_monster := (the_monster g)\<lparr>nearBoundary := b\<rparr>\<rparr>) i = collides g i"
  by (simp add: collides_def touches_flag split: option.splits)

lemma collect_flag: "collect (m\<lparr>nearBoundary := b\<rparr>) slot = collect m slot"
  by (simp add: collect_def touches_flag split: option.splits)

lemma checkCollisions_None: "canvasRef g = None \<Longrightarrow> checkCollisions rs g = g"
  by (simp add: checkCollisions_def)

lemma checkCollisions_hit:
  "canvasRef g = Some c \<Longrightarrow> boundary_hit c (the_monster g) \<Longrightarrow>
   checkCollisions rs g = g\<lparr>gameState := Ended\<rparr>"
  by (simp add: checkCollisions_def)

lemma checkCollisions_pickup:
  assumes "canvasRef g = Some c" and "\<not> boundary_hit c (the_monster g)"
  shows "the_monster (checkCollisions rs g)
           = (the_monster g)\<lparr>nearBoundary := near_boundary c (the_monster g)\<rparr>"
    "canvasRef (checkCollisions rs g) = canvasRef g"
    "gameState (checkCollisions rs g) = gameState g"
    "timeLeft (checkCollisions rs g) = timeLeft g"
    "length (orbs (checkCollisions rs g)) = length (orbs g)"
    "\<forall>i < length (orbs g). orbs (checkCollisions rs g) ! i = collect (the_monster g) (orbs g ! i)"
    "score (checkCollisions rs g)
       = score g + int (length (filter (collides g) [0..<length (orbs g)]))"
    "timeouts (checkCollisions rs g)
       = timeouts g @ map (Pair 500) (filter (collides g) [0..<length (orbs g)])"
    "\<exists>new. particles (checkCollisions rs g) = particles g @ new
       \<and> length new = 15 * length (filter (collides g) [0..<length (orbs g)])
       \<and> (\<forall>p \<in> set new. life p = 1
             \<and> (\<exists>i \<in> set [0..<length (orbs g)]. collides g i \<and> at_orb p (orbs g ! i)))
       \<and> (\<forall>i \<in> set [0..<length (orbs g)]. collides g i \<longrightarrow>
             (\<exists>p \<in> set new. at_orb p (orbs g ! i)))"
proof -
  let ?g1 = "g\<lparr>the_monster := (the_monster g)\<lparr>nearBoundary := near_boundary c (the_monster g)\<rparr>\<rparr>"
  let ?js = "[0..<length (orbs g)]"
  obtain g' rs' where f: "fold orb_callback ?js (?g1, rs) = (g', rs')"
    by (cases "fold orb_callback ?js (?g1, rs)")
  have r: "checkCollisions rs g = g'"
    using assms f by (simp add: checkCollisions_def forEach_orbs_def Let_def)
  have c: "collides ?g1 = collides g"
    by (rule ext) (rule collides_flag)
  have d: "distinct ?js" and b: "\<forall>j \<in> set ?js. j < length (orbs ?g1)"
    by simp_all
  from fold_frame [OF f] show "the_monster (checkCollisions rs g)
           = (the_monster g)\<lparr>nearBoundary := near_boundary c (the_monster g)\<rparr>"
    "canvasRef (checkCollisions rs g) = canvasRef g"
    "gameState (checkCollisions rs g) = gameState g"
    "timeLeft (checkCollisions rs g) = timeLeft g"
    "length (orbs (checkCollisions rs g)) = length (orbs g)"
    by (simp_all add: r)
  from fold_orbs [OF f d b]
  show "\<forall>i < length (orbs g). orbs (checkCollisions rs g) ! i = collect (the_monster g) (orbs g ! i)"
    by (simp add: r collect_flag)
  from fold_score [OF f d]
  show "score (checkCollisions rs g)
       = score g + int (length (filter (collides g) [0..<length (orbs g)]))"
    "timeouts (checkCollisions rs g)
       = timeouts g @ map (Pair 500) (filter (collides g) [0..<length (orbs g)])"
    by (simp_all add: r c)
  from fold_particles [OF f d]
  show "\<exists>new. particles (checkCollisions rs g) = particles g @ new
       \<and> length new = 15 * length (filter (collides g) [0..<length (orbs g)])
       \<and> (\<forall>p \<in> set new. life p = 1
             \<and> (\<exists>i \<in> set [0..<length (orbs g)]. collides g i \<and> at_orb p (orbs g ! i)))
       \<and> (\<forall>i \<in> set [0..<length (orbs g)]. collides g i \<longrightarrow>
             (\<exists>p \<in> set new. at_orb p (orbs g ! i)))"
    by (simp add: r c)
qed

lemma collect_None: "collect m slot = None \<longleftrightarrow> slot = None"
  by (simp add: collect_def split: option.splits)

lemma checkCollisions_orbs_ok:
  assumes "orbs_ok g"
  shows "orbs_ok (checkCollisions rs g)"
proof (cases "canvasRef g")
  case None
  with assms show ?thesis
    by (simp add: checkCollisions_None)
next
  case (Some c)
  show ?thesis
  proof (cases "boundary_hit c (the_monster g)")
    case True
    with Some assms show ?thesis
      by (simp add: checkCollisions_hit orbs_ok_def)
  next
    case False
    from assms have l: "length (orbs g) = 3"
      by (simp add: orbs_ok_def)
    note p = checkCollisions_pickup [OF Some False, of rs]
    have a: "length (orbs (checkCollisions rs g)) = 3"
      using p(5) l by simp
    have b: "orbs (checkCollisions rs g) ! i \<noteq> None" if "i < 3" for i
      using p(6) l that assms by (simp add: collect_None orbs_ok_def)
    have c: "snd t < 3" if "t \<in> set (timeouts (checkCollisions rs g))" for t
      using that assms l by (auto simp add: p(8) orbs_ok_def)
    from a b c show ?thesis
      by (simp add: orbs_ok_def)
  qed
qed

lemma checkCollisions_tentacles:
  "tentacles (the_monster (checkCollisions rs g)) = tentacles (the_monster g)"
proof (cases "canvasRef g")
  case None
  then show ?thesis
    by (simp add: checkCollisions_None)
next
  case (Some c)
  then show ?thesis
    by (cases "boundary_hit c (the_monster g)")
      (simp_all add: checkCollisions_hit checkCollisions_pickup(1))
qed

section \<open>Events\<close>

lemma orbs_ok_cong:
  "orbs g2 = orbs g \<Longrightarrow> timeouts g2 = timeouts g \<Longrightarrow> orbs_ok g2 = orbs_ok g"
  by (simp add: orbs_ok_def)

lemma tentacles_ok_cong:
  "tentacles (the_monster g2) = tentacles (the_monster g) \<Longrightarrow> tentacles_ok g2 = tentacles_ok g"
  by (simp add: tentacles_ok_def)

lemma drawOrbs_facts:
  "length (drawOrbs os) = length os"
  "i < length os \<Longrightarrow> drawOrbs os ! i = None \<longleftrightarrow> os ! i = None"
  "i < length os \<Longrightarrow> os ! i = Some ob \<Longrightarrow> collected ob \<Longrightarrow> drawOrbs os ! i = Some ob"
  by (simp_all add: drawOrbs_def)

lemma drawOrbs_orbs_ok: "orbs_ok g \<Longrightarrow> orbs_ok (g\<lparr>orbs := drawOrbs (orbs g)\<rparr>)"
  by (simp add: orbs_ok_def drawOrbs_facts)

lemma gameLoop_cases:
  "gameLoop rs g = Inr g' \<Longrightarrow>
   g' = g \<and> canvasRef g = None
   \<or> g' = g\<lparr>orbs := drawOrbs (orbs g)\<rparr> \<and> gameState g \<noteq> Playing
   \<or> (\<exists>c m. canvasRef g = Some c \<and> gameState g = Playing
         \<and> updateMonster (Some c) (the_monster g) = Inr m
         \<and> g' = checkCollisions (rnd_drop 90 rs)
                  (g\<lparr>orbs := drawOrbs (orbs g), the_monster := m,
                     particles := updateParticles (particles g)\<rparr>))"
  by (auto simp add: gameLoop_def Let_def split: option.splits if_splits sum.splits)

lemma gameLoop_orbs_ok:
  assumes "orbs_ok g" and "gameLoop rs g = Inr g'"
  shows "orbs_ok g'"
proof -
  from gameLoop_cases [OF assms(2)] consider
    (idle) "g' = g"
    | (drawn) "g' = g\<lparr>orbs := drawOrbs (orbs g)\<rparr>"
    | (played) m where "g' = checkCollisions (rnd_drop 90 rs)
                  (g\<lparr>orbs := drawOrbs (orbs g), the_monster := m,
                     particles := updateParticles (particles g)\<rparr>)"
    by blast
  then show ?thesis
  proof cases
    case idle
    with assms(1) show ?thesis by simp
  next
    case drawn
    with drawOrbs_orbs_ok [OF assms(1)] show ?thesis by simp
  next
    case played
    have "orbs_ok (g\<lparr>orbs := drawOrbs (orbs g), the_monster := m,
                     particles := updateParticles (particles g)\<rparr>)"
      using drawOrbs_orbs_ok [OF assms(1)] by (simp add: orbs_ok_def)
    from checkCollisions_orbs_ok [OF this] played show ?thesis
      by simp
  qed
qed

lemma generateOrbs_facts:
  "timeouts (generateOrbs rs g) = timeouts g"
  "the_monster (generateOrbs rs g) = the_monster g"
  "canvasRef (generateOrbs rs g) = canvasRef g"
  "gameState (generateOrbs rs g) = gameState g"
  "canvasRef g = None \<Longrightarrow> orbs (generateOrbs rs g) = orbs g"
  "canvasRef g = Some c \<Longrightarrow>
     orbs (generateOrbs rs g)
       = [Some (new_orb c rs), Some (new_orb c (rnd_drop 4 rs)), Some (new_orb c (rnd_drop 8 rs))]"
  by (simp_all add: generateOrbs_def split: option.splits)

lemma generateOrbs_orbs_ok: "orbs_ok g \<Longrightarrow> orbs_ok (generateOrbs rs g)"
  by (cases "canvasRef g")
    (auto simp add: orbs_ok_def generateOrbs_facts less_Suc_eq numeral_3_eq_3)

lemma startGame_cases:
  "startGame innerWidth rs g = Inr g' \<Longrightarrow>
   \<exists>m. initializeTentacles (canvasRef g) innerWidth rs (the_monster g) = Inr m
     \<and> gameState g' = Playing \<and> score g' = 0 \<and> timeLeft g' = 60 \<and> particles g' = []
     \<and> tentacles (the_monster g') = tentacles m
     \<and> canvasRef g' = canvasRef g
     \<and> orbs g' = orbs (generateOrbs (rnd_drop (if innerWidth < 768 then 600 else 1200) rs) g)
     \<and> timeouts g' = timeouts g"
  by (auto simp add: startGame_def Let_def generateOrbs_def split: option.splits sum.splits)

lemma startGame_orbs_ok:
  assumes "orbs_ok g" and "startGame innerWidth rs g = Inr g'"
  shows "orbs_ok g'"
proof -
  from startGame_cases [OF assms(2)] have
    "orbs g' = orbs (generateOrbs (rnd_drop (if innerWidth < 768 then 600 else 1200) rs) g)"
    "timeouts g' = timeouts (generateOrbs (rnd_drop (if innerWidth < 768 then 600 else 1200) rs) g)"
    by (auto simp add: generateOrbs_facts)
  from orbs_ok_cong [OF this] generateOrbs_orbs_ok [OF assms(1)] show ?thesis
    by simp
qed

lemma regenerateOrb_orbs_ok:
  assumes "length (orbs g) = 3" and "\<forall>i < 3. orbs g ! i \<noteq> None" and "index < 3"
  shows "length (orbs (regenerateOrb index rs g)) = 3"
    "\<forall>i < 3. orbs (regenerateOrb index rs g) ! i \<noteq> None"
    "timeouts (regenerateOrb index rs g) = timeouts g"
    "canvasRef g = Some c \<Longrightarrow> orbs (regenerateOrb index rs g) ! index = Some (new_orb c rs)"
  using assms
  by (auto simp add: regenerateOrb_def array_set_def nth_list_update split: option.splits)

lemma handler_frames:
  "orbs (timer_tick g) = orbs g" "timeouts (timer_tick g) = timeouts g"
  "the_monster (timer_tick g) = the_monster g"
  "orbs (set_pointer mx my g) = orbs g" "timeouts (set_pointer mx my g) = timeouts g"
  "tentacles (the_monster (set_pointer mx my g)) = tentacles (the_monster g)"
  "gameState (set_pointer mx my g) = gameState g"
  "orbs (handleMouseLeave g) = orbs g" "timeouts (handleMouseLeave g) = timeouts g"
  "tentacles (the_monster (handleMouseLeave g)) = tentacles (the_monster g)"
  "gameState (handleMouseLeave g) = gameState g"
  "orbs (resizeCanvas w h g) = orbs g" "timeouts (resizeCanvas w h g) = timeouts g"
  "tentacles (the_monster (resizeCanvas w h g)) = tentacles (the_monster g)"
  "gameState (resizeCanvas w h g) = gameState g"
  "the_monster (regenerateOrb index rs g) = the_monster g"
  "gameState (regenerateOrb index rs g) = gameState g"
  by (simp_all add: timer_tick_def set_pointer_def handleMouseLeave_def resizeCanvas_def
        regenerateOrb_def Let_def split: option.splits)

lemma step_orbs_ok:
  assumes "orbs_ok g" and "step e g = Inr g'"
  shows "orbs_ok g'"
proof (cases e)
  case (Frame rs)
  with assms show ?thesis
    by (simp add: gameLoop_orbs_ok)
next
  case TimerTick
  with assms orbs_ok_cong [OF handler_frames(1,2), of g] show ?thesis
    by auto
next
  case (MouseMove mx my)
  with assms orbs_ok_cong [OF handler_frames(4,5), of mx my g] show ?thesis
    by auto
next
  case MouseLeave
  with assms orbs_ok_cong [OF handler_frames(8,9), of g] show ?thesis
    by auto
next
  case (TouchStart mx my)
  with assms orbs_ok_cong [OF handler_frames(4,5), of mx my g] show ?thesis
    by auto
next
  case (TouchMove mx my)
  with assms orbs_ok_cong [OF handler_frames(4,5), of mx my g] show ?thesis
    by auto
next
  case TouchEnd
  with assms show ?thesis
    by simp
next
  case (StartGame innerWidth rs)
  with assms show ?thesis
    by (simp add: startGame_orbs_ok)
next
  case (Resize w h)
  with assms orbs_ok_cong [OF handler_frames(12,13), of w h g] show ?thesis
    by auto
next
  case (Timeout rs)
  show ?thesis
  proof (cases "timeouts g")
    case Nil
    with Timeout assms show ?thesis
      by simp
  next
    case (Cons t rest)
    obtain delay index where t: "t = (delay, index)"
      by (cases t)
    let ?g1 = "g\<lparr>timeouts := rest\<rparr>"
    from assms(1) Cons t have a: "length (orbs ?g1) = 3" "\<forall>i < 3. orbs ?g1 ! i \<noteq> None"
      "index < 3" "\<forall>u \<in> set rest. snd u < 3"
      by (auto simp add: orbs_ok_def)
    from Timeout Cons t assms(2) have "g' = regenerateOrb index rs ?g1"
      by simp
    with regenerateOrb_orbs_ok(1-3) [OF a(1-3), of rs] a(4) show ?thesis
      by (simp add: orbs_ok_def)
  qed
qed

lemma run_orbs_ok: "orbs_ok g \<Longrightarrow> run es g = Inr g' \<Longrightarrow> orbs_ok g'"
proof (induction es arbitrary: g)
  case Nil
  then show ?case by simp
next
  case (Cons e es)
  from Cons.prems(2) obtain g1 where s: "step e g = Inr g1" and r: "run es g1 = Inr g'"
    by (auto split: sum.splits)
  from Cons.IH [OF step_orbs_ok [OF Cons.prems(1) s] r] show ?case .
qed

lemma gameLoop_tentacles_ok:
  assumes "tentacles_ok g"
  shows "\<exists>g'. gameLoop rs g = Inr g' \<and> tentacles_ok g'"
proof (cases "canvasRef g")
  case None
  with assms show ?thesis
    by (simp add: gameLoop_def)
next
  case (Some c)
  show ?thesis
  proof (cases "gameState g = Playing")
    case False
    with Some assms show ?thesis
      by (simp add: gameLoop_def Let_def tentacles_ok_def)
  next
    case True
    from assms have "\<forall>tn \<in> set (tentacles (the_monster g)). tentacle_ok tn"
      by (simp add: tentacles_ok_def)
    from updateMonster_keeps [OF this, of c] obtain m where
      u: "updateMonster (Some c) (the_monster g) = Inr m" and
      k: "\<forall>tn \<in> set (tentacles m). tentacle_ok tn"
      by auto
    let ?g2 = "g\<lparr>orbs := drawOrbs (orbs g), the_monster := m,
                 particles := updateParticles (particles g)\<rparr>"
    have e: "gameLoop rs g = Inr (checkCollisions (rnd_drop 90 rs) ?g2)"
      using Some True u by (simp add: gameLoop_def Let_def)
    have "tentacles_ok (checkCollisions (rnd_drop 90 rs) ?g2)"
      using k by (simp add: tentacles_ok_def checkCollisions_tentacles)
    with e show ?thesis
      by simp
  qed
qed

lemma startGame_tentacles_ok:
  assumes "tentacles_ok g"
  shows "\<exists>g'. startGame innerWidth rs g = Inr g' \<and> tentacles_ok g'"
proof (cases "canvasRef g")
  case None
  with assms show ?thesis
    by (simp add: startGame_def Let_def initializeTentacles_def generateOrbs_def tentacles_ok_def)
next
  case (Some c)
  from initializeTentacles_result [of c innerWidth rs "the_monster g"] obtain tns where
    i: "initializeTentacles (Some c) innerWidth rs (the_monster g)
          = Inr ((the_monster g)\<lparr>tentacles := tns\<rparr>)" and
    k: "\<forall>tn \<in> set tns. tentacle_ok tn"
    by blast
  with Some show ?thesis
    by (simp add: startGame_def Let_def generateOrbs_def tentacles_ok_def)
qed

lemma step_tentacles_ok:
  assumes "tentacles_ok g"
  shows "\<exists>g'. step e g = Inr g' \<and> tentacles_ok g'"
proof (cases e)
  case (Frame rs)
  with gameLoop_tentacles_ok [OF assms] show ?thesis
    by simp
next
  case (StartGame innerWidth rs)
  with startGame_tentacles_ok [OF assms] show ?thesis
    by simp
next
  case (Timeout rs)
  with assms show ?thesis
    by (auto simp add: tentacles_ok_def handler_frames split: list.splits)
next
  case (Resize w h)
  with assms show ?thesis
    by (simp add: tentacles_ok_def handler_frames)
next
  case TimerTick
  with assms show ?thesis
    by (simp add: tentacles_ok_def handler_frames)
next
  case (MouseMove mx my)
  with assms show ?thesis
    by (simp add: tentacles_ok_def handler_frames)
next
  case MouseLeave
  with assms show ?thesis
    by (simp add: tentacles_ok_def handler_frames)
next
  case (TouchStart mx my)
  with assms show ?thesis
    by (simp add: tentacles_ok_def handler_frames)
next
  case (TouchMove mx my)
  with assms show ?thesis
    by (simp add: tentacles_ok_def handler_frames)
next
  case TouchEnd
  with assms show ?thesis
    by simp
qed

lemma run_tentacles_ok: "tentacles_ok g \<Longrightarrow> \<exists>g'. run es g = Inr g' \<and> tentacles_ok g'"
proof (induction es arbitrary: g)
  case Nil
  then show ?case by simp
next
  case (Cons e es)
  from step_tentacles_ok [OF Cons.prems, of e] obtain g1 where
    s: "step e g = Inr g1" and k: "tentacles_ok g1"
    by blast
  from Cons.IH [OF k] s show ?case
    by simp
qed

section \<open>The core's movement\<close>






section \<open>The session\<close>

lemma not_Playing: "s \<noteq> Playing \<longleftrightarrow> s = Ended"
  by (cases s) simp_all

lemma step_leaves_Playing:
  assumes "gameState g = Playing" and "step e g = Inr g'" and "gameState g' \<noteq> Playing"
  shows "(\<exists>rs c m. e = Frame rs \<and> canvasRef g = Some c
            \<and> updateMonster (Some c) (the_monster g) = Inr m \<and> boundary_hit c m)
         \<or> (e = TimerTick \<and> timeLeft g = 1)"
proof (cases e)
  case (Frame rs)
  with assms(2) have "gameLoop rs g = Inr g'"
    by simp
  from gameLoop_cases [OF this] assms(1,3) obtain c m where
    c: "canvasRef g = Some c" and u: "updateMonster (Some c) (the_monster g) = Inr m" and
    e: "g' = checkCollisions (rnd_drop 90 rs)
              (g\<lparr>orbs := drawOrbs (orbs g), the_monster := m,
                 particles := updateParticles (particles g)\<rparr>)"
    by auto
  let ?g2 = "g\<lparr>orbs := drawOrbs (orbs g), the_monster := m,
               particles := updateParticles (particles g)\<rparr>"
  have "boundary_hit c m"
  proof (rule ccontr)
    assume "\<not> boundary_hit c m"
    then have "\<not> boundary_hit c (the_monster ?g2)" and "canvasRef ?g2 = Some c"
      using c by simp_all
    from checkCollisions_pickup(3) [OF this(2) this(1), of "rnd_drop 90 rs"] e assms(1,3)
    show False
      by simp
  qed
  with Frame c u show ?thesis
    by blast
next
  case TimerTick
  with assms show ?thesis
    by (auto simp add: timer_tick_def split: if_splits)
next
  case (StartGame innerWidth rs)
  with assms(2) have "startGame innerWidth rs g = Inr g'"
    by simp
  from startGame_cases [OF this] assms(3) show ?thesis
    by auto
next
  case (Timeout rs)
  with assms show ?thesis
    by (auto simp add: handler_frames split: list.splits)
qed (use assms in \<open>auto simp add: handler_frames\<close>)

lemma step_leaves_Ended:
  assumes "gameState g = Ended" and "step e g = Inr g'" and "gameState g' = Playing"
  shows "\<exists>innerWidth rs. e = StartGame innerWidth rs"
proof (cases e)
  case (Frame rs)
  with assms show ?thesis
    by (auto simp add: gameLoop_def Let_def split: option.splits)
next
  case TimerTick
  with assms show ?thesis
    by (auto simp add: timer_tick_def)
next
  case (Timeout rs)
  with assms show ?thesis
    by (auto simp add: handler_frames split: list.splits)
qed (use assms in \<open>auto simp add: handler_frames\<close>)

lemma frame_at_boundary:
  assumes "gameState g = Playing" and "canvasRef g = Some c"
    and "updateMonster (Some c) (the_monster g) = Inr m" and "boundary_hit c m"
  shows "\<exists>g'. step (Frame rs) g = Inr g' \<and> gameState g' = Ended"
proof -
  let ?g2 = "g\<lparr>orbs := drawOrbs (orbs g), the_monster := m,
               particles := updateParticles (particles g)\<rparr>"
  have e: "step (Frame rs) g = Inr (checkCollisions (rnd_drop 90 rs) ?g2)"
    using assms(1-3) by (simp add: gameLoop_def Let_def)
  have "canvasRef ?g2 = Some c" and "boundary_hit c (the_monster ?g2)"
    using assms(2,4) by simp_all
  from checkCollisions_hit [OF this, of "rnd_drop 90 rs"] e show ?thesis
    by simp
qed

text \<open>
  Claim C6. With the core within \<open>coreRadius + 6\<close> of the left, right, top or bottom edge, and
  so at \<open>coreRadius + 6 - 1\<close> from the left edge, \<open>checkCollisions\<close> ends the session whatever
  the time left; strictly inside that band on all four sides it leaves the session state
  alone and sets the warning flag to whether the core is within \<open>coreRadius + 6 + 40\<close> of an
  edge. A step takes a session from \<open>Playing\<close> only to \<open>Ended\<close>, and only as a frame whose
  moved core is in the band or as the timer's tick at one second left, both of which do end
  it; only \<open>startGame\<close> takes it back.
\<close>

theorem boundary_ends_session:
  "(canvasRef g = Some c \<and> the_monster g = m
      \<and> (coreX m \<le> coreRadius m + 6 \<or> coreX m \<ge> width c - coreRadius m - 6
          \<or> coreY m \<le> coreRadius m + 6 \<or> coreY m \<ge> height c - coreRadius m - 6) \<longrightarrow>
      gameState (checkCollisions rs g) = Ended)
   \<and> (canvasRef g = Some c \<and> coreX (the_monster g) = coreRadius (the_monster g) + 6 - 1 \<longrightarrow>
      gameState (checkCollisions rs g) = Ended)
   \<and> (canvasRef g = Some c \<and> the_monster g = m
      \<and> coreRadius m + 6 < coreX m \<and> coreX m < width c - coreRadius m - 6
      \<and> coreRadius m + 6 < coreY m \<and> coreY m < height c - coreRadius m - 6 \<longrightarrow>
      gameState (checkCollisions rs g) = gameState g
      \<and> nearBoundary (the_monster (checkCollisions rs g))
          = (coreX m \<le> coreRadius m + 6 + 40 \<or> coreX m \<ge> width c - coreRadius m - 6 - 40
             \<or> coreY m \<le> coreRadius m + 6 + 40 \<or> coreY m \<ge> height c - coreRadius m - 6 - 40))
   \<and> (gameState g = Playing \<and> step e g = Inr g' \<and> gameState g' \<noteq> Playing \<longrightarrow>
      gameState g' = Ended
      \<and> ((\<exists>rs c m. e = Frame rs \<and> canvasRef g = Some c
               \<and> updateMonster (Some c) (the_monster g) = Inr m
               \<and> (coreX m \<le> coreRadius m + 6 \<or> coreX m \<ge> width c - coreRadius m - 6
                   \<or> coreY m \<le> coreRadius m + 6 \<or> coreY m \<ge> height c - coreRadius m - 6))
          \<or> (e = TimerTick \<and> timeLeft g = 1)))
   \<and> (gameState g = Playing \<and> canvasRef g = Some c
      \<and> updateMonster (Some c) (the_monster g) = Inr m1
      \<and> (coreX m1 \<le> coreRadius m1 + 6 \<or> coreX m1 \<ge> width c - coreRadius m1 - 6
          \<or> coreY m1 \<le> coreRadius m1 + 6 \<or> coreY m1 \<ge> height c - coreRadius m1 - 6) \<longrightarrow>
      (\<exists>g1. step (Frame rs) g = Inr g1 \<and> gameState g1 = Ended))
   \<and> (gameState g = Playing \<and> timeLeft g = 1 \<longrightarrow>
      step TimerTick g = Inr (g\<lparr>gameState := Ended, timeLeft := 0\<rparr>))
   \<and> (gameState g = Ended \<and> step e g = Inr g' \<and> gameState g' = Playing \<longrightarrow>
      (\<exists>innerWidth rs. e = StartGame innerWidth rs))"
proof -
  have a: "gameState (checkCollisions rs g) = Ended"
    if "canvasRef g = Some c" "the_monster g = m"
      "coreX m \<le> coreRadius m + 6 \<or> coreX m \<ge> width c - coreRadius m - 6
          \<or> coreY m \<le> coreRadius m + 6 \<or> coreY m \<ge> height c - coreRadius m - 6"
  proof -
    from that(2,3) have "boundary_hit c (the_monster g)"
      by (simp add: boundary_hit_def)
    with that(1) show ?thesis
      by (simp add: checkCollisions_hit)
  qed
  have b: "gameState (checkCollisions rs g) = Ended"
    if "canvasRef g = Some c" "coreX (the_monster g) = coreRadius (the_monster g) + 6 - 1"
  proof -
    from that(2) have "boundary_hit c (the_monster g)"
      by (simp add: boundary_hit_def)
    with that(1) show ?thesis
      by (simp add: checkCollisions_hit)
  qed
  have n: "gameState (checkCollisions rs g) = gameState g
      \<and> nearBoundary (the_monster (checkCollisions rs g))
          = (coreX m \<le> coreRadius m + 6 + 40 \<or> coreX m \<ge> width c - coreRadius m - 6 - 40
             \<or> coreY m \<le> coreRadius m + 6 + 40 \<or> coreY m \<ge> height c - coreRadius m - 6 - 40)"
    if "canvasRef g = Some c" "the_monster g = m"
      "coreRadius m + 6 < coreX m" "coreX m < width c - coreRadius m - 6"
      "coreRadius m + 6 < coreY m" "coreY m < height c - coreRadius m - 6"
  proof -
    from that(2-6) have "\<not> boundary_hit c (the_monster g)"
      by (simp add: boundary_hit_def)
    from checkCollisions_pickup(1,3) [OF that(1) this, of rs] that(2) show ?thesis
      by (simp add: near_boundary_def)
  qed
  have p: "gameState g' = Ended
      \<and> ((\<exists>rs c m. e = Frame rs \<and> canvasRef g = Some c
               \<and> updateMonster (Some c) (the_monster g) = Inr m
               \<and> (coreX m \<le> coreRadius m + 6 \<or> coreX m \<ge> width c - coreRadius m - 6
                   \<or> coreY m \<le> coreRadius m + 6 \<or> coreY m \<ge> height c - coreRadius m - 6))
          \<or> (e = TimerTick \<and> timeLeft g = 1))"
    if "gameState g = Playing" "step e g = Inr g'" "gameState g' \<noteq> Playing"
    using step_leaves_Playing [OF that] that(3)
    by (simp add: not_Playing boundary_hit_def)
  have f: "\<exists>g1. step (Frame rs) g = Inr g1 \<and> gameState g1 = Ended"
    if "gameState g = Playing" "canvasRef g = Some c"
      "updateMonster (Some c) (the_monster g) = Inr m1"
      "coreX m1 \<le> coreRadius m1 + 6 \<or> coreX m1 \<ge> width c - coreRadius m1 - 6
          \<or> coreY m1 \<le> coreRadius m1 + 6 \<or> coreY m1 \<ge> height c - coreRadius m1 - 6"
  proof -
    from that(4) have "boundary_hit c m1"
      by (simp add: boundary_hit_def)
    from frame_at_boundary [OF that(1-3) this] show ?thesis .
  qed
  have t: "step TimerTick g = Inr (g\<lparr>gameState := Ended, timeLeft := 0\<rparr>)"
    if "gameState g = Playing" "timeLeft g = 1"
    using that by (simp add: timer_tick_def)
  have q: "\<exists>innerWidth rs. e = StartGame innerWidth rs"
    if "gameState g = Ended" "step e g = Inr g'" "gameState g' = Playing"
    using step_leaves_Ended [OF that] .
  from a have a': "canvasRef g = Some c \<and> the_monster g = m
      \<and> (coreX m \<le> coreRadius m + 6 \<or> coreX m \<ge> width c - coreRadius m - 6
          \<or> coreY m \<le> coreRadius m + 6 \<or> coreY m \<ge> height c - coreRadius m - 6) \<longrightarrow>
      gameState (checkCollisions rs g) = Ended"
    by blast
  from b have b': "canvasRef g = Some c
      \<and> coreX (the_monster g) = coreRadius (the_monster g) + 6 - 1 \<longrightarrow>
      gameState (checkCollisions rs g) = Ended"
    by blast
  from n have n': "canvasRef g = Some c \<and> the_monster g = m
      \<and> coreRadius m + 6 < coreX m \<and> coreX m < width c - coreRadius m - 6
      \<and> coreRadius m + 6 < coreY m \<and> coreY m < height c - coreRadius m - 6 \<longrightarrow>
      gameState (checkCollisions rs g) = gameState g
      \<and> nearBoundary (the_monster (checkCollisions rs g))
          = (coreX m \<le> coreRadius m + 6 + 40 \<or> coreX m \<ge> width c - coreRadius m - 6 - 40
             \<or> coreY m \<le> coreRadius m + 6 + 40 \<or> coreY m \<ge> height c - coreRadius m - 6 - 40)"
    by blast
  from p have p': "gameState g = Playing \<and> step e g = Inr g' \<and> gameState g' \<noteq> Playing \<longrightarrow>
      gameState g' = Ended
      \<and> ((\<exists>rs c m. e = Frame rs \<and> canvasRef g = Some c
               \<and> updateMonster (Some c) (the_monster g) = Inr m
               \<and> (coreX m \<le> coreRadius m + 6 \<or> coreX m \<ge> width c - coreRadius m - 6
                   \<or> coreY m \<le> coreRadius m + 6 \<or> coreY m \<ge> height c - coreRadius m - 6))
          \<or> (e = TimerTick \<and> timeLeft g = 1))"
    by blast
  from f have f': "gameState g = Playing \<and> canvasRef g = Some c
      \<and> updateMonster (Some c) (the_monster g) = Inr m1
      \<and> (coreX m1 \<le> coreRadius m1 + 6 \<or> coreX m1 \<ge> width c - coreRadius m1 - 6
          \<or> coreY m1 \<le> coreRadius m1 + 6 \<or> coreY m1 \<ge> height c - coreRadius m1 - 6) \<longrightarrow>
      (\<exists>g1. step (Frame rs) g = Inr g1 \<and> gameState g1 = Ended)"
    by blast
  from t have t': "gameState g = Playing \<and> timeLeft g = 1 \<longrightarrow>
      step TimerTick g = Inr (g\<lparr>gameState := Ended, timeLeft := 0\<rparr>)"
    by blast
  from q have q': "gameState g = Ended \<and> step e g = Inr g' \<and> gameState g' = Playing \<longrightarrow>
      (\<exists>innerWidth rs. e = StartGame innerWidth rs)"
    by blast
  show ?thesis
    by (intro conjI) (fact a' b' n' p' f' t' q')+
qed

theorem boundary_ends_session_witness:
  "canvasRef game_left = Some canvas_ex
   \<and> coreX (the_monster game_left) = coreRadius (the_monster game_left) + 6 - 1
   \<and> timeLeft game_left = 60
   \<and> gameState game_left = Playing
   \<and> gameState (checkCollisions rnd_ex game_left) = Ended
   \<and> gameState (checkCollisions rnd_ex game_near) = Playing
   \<and> nearBoundary (the_monster (checkCollisions rnd_ex game_near))"
proof -
  have h: "canvasRef game_left = Some canvas_ex
     \<and> coreX (the_monster game_left) = coreRadius (the_monster game_left) + 6 - 1"
    by (simp add: game_left_def game_ex_def monster_ex_def)
  have t: "timeLeft game_left = 60 \<and> gameState game_left = Playing"
    by (simp add: game_left_def game_ex_def)
  have k: "canvasRef game_near = Some canvas_ex
     \<and> the_monster game_near = monster_ex\<lparr>coreX := 50\<rparr>
     \<and> coreRadius (monster_ex\<lparr>coreX := 50\<rparr>) + 6 < coreX (monster_ex\<lparr>coreX := 50\<rparr>)
     \<and> coreX (monster_ex\<lparr>coreX := 50\<rparr>) < width canvas_ex - coreRadius (monster_ex\<lparr>coreX := 50\<rparr>) - 6
     \<and> coreRadius (monster_ex\<lparr>coreX := 50\<rparr>) + 6 < coreY (monster_ex\<lparr>coreX := 50\<rparr>)
     \<and> coreY (monster_ex\<lparr>coreX := 50\<rparr>) < height canvas_ex - coreRadius (monster_ex\<lparr>coreX := 50\<rparr>) - 6"
    by (simp add: game_near_def game_ex_def monster_ex_def canvas_ex_def)
  have s: "gameState game_near = Playing"
    by (simp add: game_near_def game_ex_def)
  have w: "coreX (monster_ex\<lparr>coreX := 50\<rparr>) \<le> coreRadius (monster_ex\<lparr>coreX := 50\<rparr>) + 6 + 40"
    by (simp add: monster_ex_def)
  from boundary_ends_session [of game_left canvas_ex _ rnd_ex] h
  have l: "gameState (checkCollisions rnd_ex game_left) = Ended"
    by blast
  from boundary_ends_session [of game_near canvas_ex "monster_ex\<lparr>coreX := 50\<rparr>" rnd_ex] k
  have "gameState (checkCollisions rnd_ex game_near) = gameState game_near
      \<and> nearBoundary (the_monster (checkCollisions rnd_ex game_near))
          = (coreX (monster_ex\<lparr>coreX := 50\<rparr>) \<le> coreRadius (monster_ex\<lparr>coreX := 50\<rparr>) + 6 + 40
             \<or> coreX (monster_ex\<lparr>coreX := 50\<rparr>) \<ge> width canvas_ex - coreRadius (monster_ex\<lparr>coreX := 50\<rparr>) - 6 - 40
             \<or> coreY (monster_ex\<lparr>coreX := 50\<rparr>) \<le> coreRadius (monster_ex\<lparr>coreX := 50\<rparr>) + 6 + 40
             \<or> coreY (monster_ex\<lparr>coreX := 50\<rparr>) \<ge> height canvas_ex - coreRadius (monster_ex\<lparr>coreX := 50\<rparr>) - 6 - 40)"
    by blast
  with s w have "gameState (checkCollisions rnd_ex game_near) = Playing
      \<and> nearBoundary (the_monster (checkCollisions rnd_ex game_near))"
    by simp
  with h t l show ?thesis
    by blast
qed

section \<open>Orb pickup\<close>

lemma collect_Some:
  "collect m (Some ob)
     = Some (if \<not> collected ob \<and> touches m ob then ob\<lparr>collected := True\<rparr> else ob)"
  by (simp add: collect_def)

lemma collides_iff:
  "collides g k \<longleftrightarrow>
     (\<exists>ob. orbs g ! k = Some ob \<and> \<not> collected ob
        \<and> sqrt ((coreX (the_monster g) - ox ob) ^ 2 + (coreY (the_monster g) - oy ob) ^ 2)
            < coreRadius (the_monster g) + radius ob)"
  by (cases "orbs g ! k") (simp_all add: collides_def touches_def)

lemma checkCollisions_blocks:
  assumes "canvasRef g = Some c" and "\<not> boundary_hit c (the_monster g)"
  shows "\<exists>blocks. particles (checkCollisions rs g) = particles g @ concat blocks
     \<and> list_all2 (\<lambda>i b. length b = 15
            \<and> (\<forall>p \<in> set b. life p = 1
                  \<and> (\<exists>ob. orbs g ! i = Some ob \<and> ptx p = ox ob \<and> pty p = oy ob)))
          (filter (collides g) [0..<length (orbs g)]) blocks"
proof -
  let ?g1 = "g\<lparr>the_monster := (the_monster g)\<lparr>nearBoundary := near_boundary c (the_monster g)\<rparr>\<rparr>"
  let ?js = "[0..<length (orbs g)]"
  obtain g' rs' where f: "fold orb_callback ?js (?g1, rs) = (g', rs')"
    by (cases "fold orb_callback ?js (?g1, rs)")
  have r: "checkCollisions rs g = g'"
    using assms f by (simp add: checkCollisions_def forEach_orbs_def Let_def)
  have c: "collides ?g1 = collides g"
    by (rule ext) (rule collides_flag)
  have d: "distinct ?js"
    by simp
  from fold_blocks [OF f d] show ?thesis
    by (simp add: r c at_orb_iff)
qed

lemma new_orb_uncollected: "\<not> collected (new_orb c rs)"
  by (simp add: new_orb_def)

lemma regenerateOrb_others:
  "j \<noteq> index \<Longrightarrow> j < length (orbs g) \<Longrightarrow> orbs (regenerateOrb index rs g) ! j = orbs g ! j"
  "score (regenerateOrb index rs g) = score g"
  by (simp_all add: regenerateOrb_def array_set_def nth_append split: option.splits)

lemma timeout_respawn:
  assumes "orbs_ok g" and "canvasRef g = Some c" and "timeouts g = (delay, index) # rest"
  shows "\<exists>g'. step (Timeout rs) g = Inr g' \<and> length (orbs g') = 3
           \<and> orbs g' ! index = Some (new_orb c rs)
           \<and> (\<forall>j. j < 3 \<and> j \<noteq> index \<longrightarrow> orbs g' ! j = orbs g ! j)
           \<and> score g' = score g \<and> timeouts g' = rest"
proof -
  let ?g1 = "g\<lparr>timeouts := rest\<rparr>"
  from assms have a: "length (orbs ?g1) = 3" "\<forall>i < 3. orbs ?g1 ! i \<noteq> None" "index < 3"
    and c: "canvasRef ?g1 = Some c"
    by (auto simp add: orbs_ok_def)
  have s: "step (Timeout rs) g = Inr (regenerateOrb index rs ?g1)"
    using assms(3) by simp
  have o: "\<forall>j. j < 3 \<and> j \<noteq> index \<longrightarrow> orbs (regenerateOrb index rs ?g1) ! j = orbs g ! j"
    using regenerateOrb_others(1) [of _ index ?g1 rs] a(1) by simp
  from s o regenerateOrb_orbs_ok(1,3) [OF a, of rs] regenerateOrb_orbs_ok(4) [OF a c, of rs]
    regenerateOrb_others(2) [of index rs ?g1]
  show ?thesis
    by simp
qed

lemma startGame_three_orbs:
  assumes "canvasRef g = Some c" and "\<forall>t \<in> set (timeouts g). snd t < 3"
    and "startGame innerWidth rs g = Inr g'"
  shows "orbs_ok g'"
proof -
  from startGame_cases [OF assms(3)] have
    o: "orbs g' = orbs (generateOrbs (rnd_drop (if innerWidth < 768 then 600 else 1200) rs) g)"
    and t: "timeouts g' = timeouts g"
    by auto
  from o assms(1) have "length (orbs g') = 3 \<and> (\<forall>i < 3. orbs g' ! i \<noteq> None)"
    by (auto simp add: generateOrbs_facts(6) less_Suc_eq numeral_3_eq_3)
  with t assms(2) show ?thesis
    by (simp add: orbs_ok_def)
qed

lemma checkCollisions_keeps_collected:
  assumes "i < length (orbs g)" and "orbs g ! i = Some ob" and "collected ob"
  shows "orbs (checkCollisions rs g) ! i = Some ob"
proof (cases "canvasRef g")
  case None
  with assms show ?thesis
    by (simp add: checkCollisions_None)
next
  case (Some c)
  show ?thesis
  proof (cases "boundary_hit c (the_monster g)")
    case True
    with Some assms show ?thesis
      by (simp add: checkCollisions_hit)
  next
    case False
    from checkCollisions_pickup(6) [OF Some False, of rs] assms show ?thesis
      by (simp add: collect_Some)
  qed
qed

lemma step_keeps_collected:
  assumes "step e g = Inr g'" and "i < length (orbs g)" and "orbs g ! i = Some ob"
    and "collected ob"
  shows "orbs g' ! i = Some ob
     \<or> (\<exists>rs delay rest. e = Timeout rs \<and> timeouts g = (delay, i) # rest)
     \<or> (\<exists>innerWidth rs. e = StartGame innerWidth rs)"
proof (cases e)
  case (Frame rs)
  with assms(1) have "gameLoop rs g = Inr g'"
    by simp
  from gameLoop_cases [OF this] consider
    (idle) "g' = g"
    | (drawn) "g' = g\<lparr>orbs := drawOrbs (orbs g)\<rparr>"
    | (played) m where "g' = checkCollisions (rnd_drop 90 rs)
                  (g\<lparr>orbs := drawOrbs (orbs g), the_monster := m,
                     particles := updateParticles (particles g)\<rparr>)"
    by blast
  then show ?thesis
  proof cases
    case idle
    with assms show ?thesis by simp
  next
    case drawn
    with assms drawOrbs_facts(3) [OF assms(2-4)] show ?thesis by simp
  next
    case played
    let ?g2 = "g\<lparr>orbs := drawOrbs (orbs g), the_monster := m,
                 particles := updateParticles (particles g)\<rparr>"
    from assms drawOrbs_facts(3) [OF assms(2-4)]
    have "i < length (orbs ?g2)" "orbs ?g2 ! i = Some ob"
      by (simp_all add: drawOrbs_facts(1))
    from checkCollisions_keeps_collected [OF this assms(4), of "rnd_drop 90 rs"] played
    show ?thesis
      by simp
  qed
next
  case (Timeout rs)
  show ?thesis
  proof (cases "timeouts g")
    case Nil
    with Timeout assms show ?thesis
      by simp
  next
    case (Cons t rest)
    obtain delay index where t: "t = (delay, index)"
      by (cases t)
    with Timeout Cons assms(1) have e: "g' = regenerateOrb index rs (g\<lparr>timeouts := rest\<rparr>)"
      by simp
    show ?thesis
    proof (cases "index = i")
      case True
      with Timeout Cons t show ?thesis
        by simp
    next
      case False
      then have "i \<noteq> index" by simp
      from regenerateOrb_others(1) [OF this, of "g\<lparr>timeouts := rest\<rparr>" rs] assms(2,3) e
      show ?thesis
        by simp
    qed
  qed
qed (use assms in \<open>auto simp add: handler_frames\<close>)

lemma step_score:
  assumes "step e g = Inr g'"
  shows "score g' = score g \<or> (\<exists>rs. e = Frame rs)
     \<or> (\<exists>innerWidth rs. e = StartGame innerWidth rs)"
proof (cases e)
  case (Timeout rs)
  with assms show ?thesis
    by (auto simp add: regenerateOrb_others(2) split: list.splits)
qed (use assms in \<open>auto simp add: timer_tick_def set_pointer_def handleMouseLeave_def
       resizeCanvas_def Let_def split: option.splits\<close>)

text \<open>
  Claim C7, as the code has it. On a collision check with the core strictly inside the
  boundary band on all four sides, so that the check does not end the session: each orb that
  is not yet collected and whose distance to the core is less than \<open>coreRadius + radius\<close>
  becomes collected, the others stay as they are; the score grows by the number of those
  orbs, one each; each of them gets its own fifteen particles of life \<open>1\<close> at its position
  and a respawn at \<open>500\<close> ms for its index. The orb field stays three orbs through every
  sequence of events; a respawn puts a fresh uncollected orb at its index and leaves the
  other orbs and the score alone; \<open>startGame\<close> makes three. A collected orb stays as it is
  under every event but a respawn for its own index and \<open>startGame\<close>, and the score is changed
  by frames and \<open>startGame\<close> only.
\<close>

theorem orb_pickup:
  "(canvasRef g = Some c \<and> the_monster g = m
      \<and> coreRadius m + 6 < coreX m \<and> coreX m < width c - coreRadius m - 6
      \<and> coreRadius m + 6 < coreY m \<and> coreY m < height c - coreRadius m - 6 \<longrightarrow>
      length (orbs (checkCollisions rs g)) = length (orbs g)
    \<and> (\<forall>i ob. i < length (orbs g) \<and> orbs g ! i = Some ob \<longrightarrow>
          orbs (checkCollisions rs g) ! i
            = Some (if \<not> collected ob
                       \<and> sqrt ((coreX m - ox ob) ^ 2 + (coreY m - oy ob) ^ 2)
                           < coreRadius m + radius ob
                    then ob\<lparr>collected := True\<rparr> else ob))
    \<and> score (checkCollisions rs g)
        = score g + int (length (filter (collides g) [0..<length (orbs g)]))
    \<and> timeouts (checkCollisions rs g)
        = timeouts g @ map (Pair 500) (filter (collides g) [0..<length (orbs g)])
    \<and> (\<exists>blocks. particles (checkCollisions rs g) = particles g @ concat blocks
          \<and> list_all2 (\<lambda>i b. length b = 15
                 \<and> (\<forall>p \<in> set b. life p = 1
                       \<and> (\<exists>ob. orbs g ! i = Some ob \<and> ptx p = ox ob \<and> pty p = oy ob)))
               (filter (collides g) [0..<length (orbs g)]) blocks))
   \<and> (collides g k \<longleftrightarrow>
        (\<exists>ob. orbs g ! k = Some ob \<and> \<not> collected ob
           \<and> sqrt ((coreX (the_monster g) - ox ob) ^ 2 + (coreY (the_monster g) - oy ob) ^ 2)
               < coreRadius (the_monster g) + radius ob))
   \<and> (orbs_ok g \<and> run es g = Inr g' \<longrightarrow> orbs_ok g')
   \<and> (orbs_ok g \<and> canvasRef g = Some c \<and> timeouts g = (delay, index) # rest \<longrightarrow>
        (\<exists>g1. step (Timeout rs) g = Inr g1 \<and> length (orbs g1) = 3
           \<and> orbs g1 ! index = Some (new_orb c rs) \<and> \<not> collected (new_orb c rs)
           \<and> (\<forall>j. j < 3 \<and> j \<noteq> index \<longrightarrow> orbs g1 ! j = orbs g ! j)
           \<and> score g1 = score g \<and> timeouts g1 = rest))
   \<and> (canvasRef g = Some c \<and> (\<forall>t \<in> set (timeouts g). snd t < 3)
        \<and> startGame innerWidth rs g = Inr g' \<longrightarrow> orbs_ok g')
   \<and> (k < length (orbs g) \<and> orbs g ! k = Some taken \<and> collected taken
        \<and> step e g = Inr g2 \<longrightarrow>
        orbs g2 ! k = Some taken
        \<or> (\<exists>rs delay rest. e = Timeout rs \<and> timeouts g = (delay, k) # rest)
        \<or> (\<exists>innerWidth rs. e = StartGame innerWidth rs))
   \<and> (step e g = Inr g2 \<longrightarrow>
        score g2 = score g \<or> (\<exists>rs. e = Frame rs)
        \<or> (\<exists>innerWidth rs. e = StartGame innerWidth rs))"
proof -
  have a: "canvasRef g = Some c \<and> the_monster g = m
      \<and> coreRadius m + 6 < coreX m \<and> coreX m < width c - coreRadius m - 6
      \<and> coreRadius m + 6 < coreY m \<and> coreY m < height c - coreRadius m - 6 \<longrightarrow>
      length (orbs (checkCollisions rs g)) = length (orbs g)
    \<and> (\<forall>i ob. i < length (orbs g) \<and> orbs g ! i = Some ob \<longrightarrow>
          orbs (checkCollisions rs g) ! i
            = Some (if \<not> collected ob
                       \<and> sqrt ((coreX m - ox ob) ^ 2 + (coreY m - oy ob) ^ 2)
                           < coreRadius m + radius ob
                    then ob\<lparr>collected := True\<rparr> else ob))
    \<and> score (checkCollisions rs g)
        = score g + int (length (filter (collides g) [0..<length (orbs g)]))
    \<and> timeouts (checkCollisions rs g)
        = timeouts g @ map (Pair 500) (filter (collides g) [0..<length (orbs g)])
    \<and> (\<exists>blocks. particles (checkCollisions rs g) = particles g @ concat blocks
          \<and> list_all2 (\<lambda>i b. length b = 15
                 \<and> (\<forall>p \<in> set b. life p = 1
                       \<and> (\<exists>ob. orbs g ! i = Some ob \<and> ptx p = ox ob \<and> pty p = oy ob)))
               (filter (collides g) [0..<length (orbs g)]) blocks)"
  proof (intro impI, elim conjE)
    assume h: "canvasRef g = Some c" and m: "the_monster g = m"
      and i: "coreRadius m + 6 < coreX m" "coreX m < width c - coreRadius m - 6"
        "coreRadius m + 6 < coreY m" "coreY m < height c - coreRadius m - 6"
    from m i have nb: "\<not> boundary_hit c (the_monster g)"
      by (simp add: boundary_hit_def)
    note p = checkCollisions_pickup [OF h nb, of rs]
    have o: "\<forall>i ob. i < length (orbs g) \<and> orbs g ! i = Some ob \<longrightarrow>
          orbs (checkCollisions rs g) ! i
            = Some (if \<not> collected ob
                       \<and> sqrt ((coreX m - ox ob) ^ 2 + (coreY m - oy ob) ^ 2)
                           < coreRadius m + radius ob
                    then ob\<lparr>collected := True\<rparr> else ob)"
      using p(6) m by (auto simp add: collect_Some touches_def)
    note bl = checkCollisions_blocks [OF h nb, of rs]
    show "length (orbs (checkCollisions rs g)) = length (orbs g)
    \<and> (\<forall>i ob. i < length (orbs g) \<and> orbs g ! i = Some ob \<longrightarrow>
          orbs (checkCollisions rs g) ! i
            = Some (if \<not> collected ob
                       \<and> sqrt ((coreX m - ox ob) ^ 2 + (coreY m - oy ob) ^ 2)
                           < coreRadius m + radius ob
                    then ob\<lparr>collected := True\<rparr> else ob))
    \<and> score (checkCollisions rs g)
        = score g + int (length (filter (collides g) [0..<length (orbs g)]))
    \<and> timeouts (checkCollisions rs g)
        = timeouts g @ map (Pair 500) (filter (collides g) [0..<length (orbs g)])
    \<and> (\<exists>blocks. particles (checkCollisions rs g) = particles g @ concat blocks
          \<and> list_all2 (\<lambda>i b. length b = 15
                 \<and> (\<forall>p \<in> set b. life p = 1
                       \<and> (\<exists>ob. orbs g ! i = Some ob \<and> ptx p = ox ob \<and> pty p = oy ob)))
               (filter (collides g) [0..<length (orbs g)]) blocks)"
      by (intro conjI) (rule p(5) o p(7) p(8) bl)+
  qed
  note ci = collides_iff [of g k]
  have b: "orbs_ok g \<and> run es g = Inr g' \<longrightarrow> orbs_ok g'"
    using run_orbs_ok [of g es g'] by blast
  have t: "orbs_ok g \<and> canvasRef g = Some c \<and> timeouts g = (delay, index) # rest \<longrightarrow>
        (\<exists>g1. step (Timeout rs) g = Inr g1 \<and> length (orbs g1) = 3
           \<and> orbs g1 ! index = Some (new_orb c rs) \<and> \<not> collected (new_orb c rs)
           \<and> (\<forall>j. j < 3 \<and> j \<noteq> index \<longrightarrow> orbs g1 ! j = orbs g ! j)
           \<and> score g1 = score g \<and> timeouts g1 = rest)"
    using timeout_respawn [of g c delay index rest rs] new_orb_uncollected [of c rs] by blast
  have s: "canvasRef g = Some c \<and> (\<forall>t \<in> set (timeouts g). snd t < 3)
        \<and> startGame innerWidth rs g = Inr g' \<longrightarrow> orbs_ok g'"
    using startGame_three_orbs [of g c innerWidth rs g'] by blast
  have k: "k < length (orbs g) \<and> orbs g ! k = Some taken \<and> collected taken
        \<and> step e g = Inr g2 \<longrightarrow>
        orbs g2 ! k = Some taken
        \<or> (\<exists>rs delay rest. e = Timeout rs \<and> timeouts g = (delay, k) # rest)
        \<or> (\<exists>innerWidth rs. e = StartGame innerWidth rs)"
    using step_keeps_collected [of e g g2 k taken] by blast
  have sc: "step e g = Inr g2 \<longrightarrow>
        score g2 = score g \<or> (\<exists>rs. e = Frame rs)
        \<or> (\<exists>innerWidth rs. e = StartGame innerWidth rs)"
    using step_score [of e g g2] by blast
  show ?thesis
    by (intro conjI) (fact a ci b t s k sc)+
qed

lemma sqrt_90000: "sqrt 90000 = (300::real)"
  using real_sqrt_abs [of 300] by simp

lemma game_ex_hits: "filter (collides game_ex) [0..<length (orbs game_ex)] = [0]"
proof -
  have u: "[0..<length (orbs game_ex)] = [0, 1, 2]"
    by (simp add: game_ex_def upt_rec)
  have "collides game_ex 0" "\<not> collides game_ex 1" "\<not> collides game_ex 2"
    by (simp_all add: collides_def game_ex_def touches_def monster_ex_def orb_near_def
          orb_taken_def orb_far_def sqrt_90000)
  with u show ?thesis
    by simp
qed

theorem orb_pickup_witness:
  "canvasRef game_ex = Some canvas_ex \<and> the_monster game_ex = monster_ex
   \<and> coreRadius monster_ex + 6 < coreX monster_ex
   \<and> coreX monster_ex < width canvas_ex - coreRadius monster_ex - 6
   \<and> coreRadius monster_ex + 6 < coreY monster_ex
   \<and> coreY monster_ex < height canvas_ex - coreRadius monster_ex - 6
   \<and> score (checkCollisions rnd_ex game_ex) = 1
   \<and> timeouts (checkCollisions rnd_ex game_ex) = [(500, 0)]
   \<and> orbs (checkCollisions rnd_ex game_ex) ! 0 = Some (orb_near\<lparr>collected := True\<rparr>)
   \<and> orbs (checkCollisions rnd_ex game_ex) ! 1 = Some orb_taken
   \<and> length (particles (checkCollisions rnd_ex game_ex)) = 15"
proof -
  have h: "canvasRef game_ex = Some canvas_ex \<and> the_monster game_ex = monster_ex
     \<and> coreRadius monster_ex + 6 < coreX monster_ex
     \<and> coreX monster_ex < width canvas_ex - coreRadius monster_ex - 6
     \<and> coreRadius monster_ex + 6 < coreY monster_ex
     \<and> coreY monster_ex < height canvas_ex - coreRadius monster_ex - 6"
    by (simp add: game_ex_def canvas_ex_def monster_ex_def)
  have o: "0 < length (orbs game_ex) \<and> orbs game_ex ! 0 = Some orb_near"
      "1 < length (orbs game_ex) \<and> orbs game_ex ! 1 = Some orb_taken"
    by (simp_all add: game_ex_def)
  have c: "\<not> collected orb_near
      \<and> sqrt ((coreX monster_ex - ox orb_near) ^ 2 + (coreY monster_ex - oy orb_near) ^ 2)
          < coreRadius monster_ex + radius orb_near"
    "collected orb_taken"
    by (simp_all add: monster_ex_def orb_near_def orb_taken_def)
  have z: "score game_ex = 0" "timeouts game_ex = []" "particles game_ex = []"
    by (simp_all add: game_ex_def)
  note big = orb_pickup [of game_ex canvas_ex monster_ex rnd_ex, THEN conjunct1, THEN mp, OF h]
  note r = big [THEN conjunct2, THEN conjunct1]
  note s = big [THEN conjunct2, THEN conjunct2, THEN conjunct1]
  note t = big [THEN conjunct2, THEN conjunct2, THEN conjunct2, THEN conjunct1]
  note b = big [THEN conjunct2, THEN conjunct2, THEN conjunct2, THEN conjunct2]
  from r [THEN spec, THEN spec, THEN mp, OF o(1)] c(1)
  have r0: "orbs (checkCollisions rnd_ex game_ex) ! 0 = Some (orb_near\<lparr>collected := True\<rparr>)"
    by simp
  from r [THEN spec, THEN spec, THEN mp, OF o(2)] c(2)
  have r1: "orbs (checkCollisions rnd_ex game_ex) ! 1 = Some orb_taken"
    by simp
  from s t z have st: "score (checkCollisions rnd_ex game_ex) = 1"
    "timeouts (checkCollisions rnd_ex game_ex) = [(500, 0)]"
    by (simp_all add: game_ex_hits)
  from b obtain blocks where
    bp: "particles (checkCollisions rnd_ex game_ex) = particles game_ex @ concat blocks" and
    bl: "list_all2 (\<lambda>i b. length b = 15
                 \<and> (\<forall>p \<in> set b. life p = 1
                       \<and> (\<exists>ob. orbs game_ex ! i = Some ob \<and> ptx p = ox ob \<and> pty p = oy ob)))
               (filter (collides game_ex) [0..<length (orbs game_ex)]) blocks"
    by (elim exE conjE)
  from bl obtain b0 where "blocks = [b0]" "length b0 = 15"
    unfolding game_ex_hits by (auto simp add: list_all2_Cons1)
  with bp z(3) have pl: "length (particles (checkCollisions rnd_ex game_ex)) = 15"
    by simp
  from h r0 r1 st pl show ?thesis
    by (intro conjI) (simp_all only:)
qed

text \<open>
  The claim as written fails on a check that finds the core at the boundary: it returns
  before it looks at the orbs, and an uncollected orb under the core stays uncollected.
\<close>

theorem pickup_skipped_at_boundary:
  "canvasRef game_bh = Some \<lparr>width = 720, height = 600\<rparr>
   \<and> orbs game_bh ! 0 = Some orb_edge \<and> \<not> collected orb_edge
   \<and> sqrt ((coreX (the_monster game_bh) - ox orb_edge) ^ 2
            + (coreY (the_monster game_bh) - oy orb_edge) ^ 2)
       < coreRadius (the_monster game_bh) + radius orb_edge
   \<and> orbs (checkCollisions rnd_ex game_bh) ! 0 = Some orb_edge
   \<and> score (checkCollisions rnd_ex game_bh) = score game_bh
   \<and> particles (checkCollisions rnd_ex game_bh) = []
   \<and> timeouts (checkCollisions rnd_ex game_bh) = []
   \<and> gameState (checkCollisions rnd_ex game_bh) = Ended"
  by (simp add: checkCollisions_def boundary_hit_def game_bh_def monster_ex_def orb_edge_def)

section \<open>Segment lengths\<close>

lemma step_keeps_lengths:
  assumes "tentacles_ok g" and "step e g = Inr g'"
  shows "(\<exists>innerWidth rs. e = StartGame innerWidth rs)
     \<or> (map tlength (tentacles (the_monster g')) = map tlength (tentacles (the_monster g))
        \<and> map numSegments (tentacles (the_monster g')) = map numSegments (tentacles (the_monster g))
        \<and> map (\<lambda>tn. map slength (segments tn)) (tentacles (the_monster g'))
            = map (\<lambda>tn. map slength (segments tn)) (tentacles (the_monster g)))"
proof (cases e)
  case (Frame rs)
  with assms(2) have "gameLoop rs g = Inr g'"
    by simp
  from gameLoop_cases [OF this] consider
    (idle) "g' = g"
    | (drawn) "g' = g\<lparr>orbs := drawOrbs (orbs g)\<rparr>"
    | (played) c m where "updateMonster (Some c) (the_monster g) = Inr m"
        "g' = checkCollisions (rnd_drop 90 rs)
                  (g\<lparr>orbs := drawOrbs (orbs g), the_monster := m,
                     particles := updateParticles (particles g)\<rparr>)"
    by blast
  then show ?thesis
  proof cases
    case idle
    then show ?thesis by simp
  next
    case drawn
    then show ?thesis by simp
  next
    case played
    from assms(1) have "\<forall>tn \<in> set (tentacles (the_monster g)). tentacle_ok tn"
      by (simp add: tentacles_ok_def)
    from updateMonster_keeps [OF this, of c] played(1) have
      "map tlength (tentacles m) = map tlength (tentacles (the_monster g))"
      "map numSegments (tentacles m) = map numSegments (tentacles (the_monster g))"
      "map (\<lambda>tn. map slength (segments tn)) (tentacles m)
         = map (\<lambda>tn. map slength (segments tn)) (tentacles (the_monster g))"
      by auto
    with played(2) show ?thesis
      by (simp add: checkCollisions_tentacles)
  qed
next
  case (Timeout rs)
  with assms show ?thesis
    by (auto simp add: handler_frames split: list.splits)
qed (use assms in \<open>auto simp add: handler_frames\<close>)

text \<open>
  Claim C9. \<open>initializeTentacles\<close> builds 150 or 300 tentacles, each of 20 or 30 segments
  of length \<open>length / numSegments\<close>; for such a tentacle the segment lengths add up to its
  length, its update changes no segment length, nor its length or segment count; no event
  but \<open>startGame\<close>, which builds them anew, changes any of these, and every sequence of events
  from a game of such tentacles ends in a game of such tentacles.
\<close>

theorem tentacle_length_invariant:
  "(\<exists>tns. initializeTentacles (Some c) innerWidth rs m = Inr (m\<lparr>tentacles := tns\<rparr>)
       \<and> length tns = (if innerWidth < 768 then 150 else 300)
       \<and> (\<forall>tn \<in> set tns. tentacle_ok tn
             \<and> numSegments tn = (if innerWidth < 768 then 20 else 30)))
   \<and> (tentacle_ok tn \<longrightarrow>
        sum_list (map slength (segments tn)) = tlength tn
        \<and> (\<exists>tn'. update_tentacle T Tp tn = Inr tn' \<and> tentacle_ok tn'
              \<and> numSegments tn' = numSegments tn \<and> tlength tn' = tlength tn
              \<and> map slength (segments tn') = map slength (segments tn)))
   \<and> (tentacles_ok g \<longrightarrow> (\<exists>g'. run es g = Inr g' \<and> tentacles_ok g'))
   \<and> (tentacles_ok g \<and> step e g = Inr g1 \<longrightarrow>
        (\<exists>innerWidth rs. e = StartGame innerWidth rs)
        \<or> (map tlength (tentacles (the_monster g1)) = map tlength (tentacles (the_monster g))
           \<and> map numSegments (tentacles (the_monster g1))
               = map numSegments (tentacles (the_monster g))
           \<and> map (\<lambda>tn. map slength (segments tn)) (tentacles (the_monster g1))
               = map (\<lambda>tn. map slength (segments tn)) (tentacles (the_monster g))))"
proof -
  note a = initializeTentacles_result [of c innerWidth rs m]
  have b: "sum_list (map slength (segments tn)) = tlength tn
        \<and> (\<exists>tn'. update_tentacle T Tp tn = Inr tn' \<and> tentacle_ok tn'
              \<and> numSegments tn' = numSegments tn \<and> tlength tn' = tlength tn
              \<and> map slength (segments tn') = map slength (segments tn))"
    if "tentacle_ok tn"
    using tentacle_ok_sum [OF that] update_tentacle_keeps [OF that, of T Tp] by blast
  have r: "\<exists>g'. run es g = Inr g' \<and> tentacles_ok g'" if "tentacles_ok g"
    using run_tentacles_ok [OF that] .
  have k: "(\<exists>innerWidth rs. e = StartGame innerWidth rs)
        \<or> (map tlength (tentacles (the_monster g1)) = map tlength (tentacles (the_monster g))
           \<and> map numSegments (tentacles (the_monster g1))
               = map numSegments (tentacles (the_monster g))
           \<and> map (\<lambda>tn. map slength (segments tn)) (tentacles (the_monster g1))
               = map (\<lambda>tn. map slength (segments tn)) (tentacles (the_monster g)))"
    if "tentacles_ok g" "step e g = Inr g1"
    using step_keeps_lengths [OF that] .
  from a b r k show ?thesis
    by blast
qed

theorem tentacle_length_invariant_witness:
  "tentacle_ok tentacle_ex
   \<and> sum_list (map slength (segments tentacle_ex)) = tlength tentacle_ex
   \<and> tlength tentacle_ex = 2
   \<and> tentacles_ok game_ex"
proof -
  have h: "tentacle_ok tentacle_ex"
    by (simp add: tentacle_ok_def tentacle_ex_def seg_a_def seg_b_def)
  then have k: "tentacles_ok game_ex"
    by (simp add: tentacles_ok_def game_ex_def monster_ex_def)
  have v: "tlength tentacle_ex = 2"
    by (simp add: tentacle_ex_def)
  from tentacle_length_invariant [of canvas_ex 1024 rnd_ex monster_ex tentacle_ex
      "\<lparr>px = 1, py = 0\<rparr>" "\<lparr>px = 1, py = 0\<rparr>" game_ex "[TimerTick]"] h k v
  show ?thesis
    by blast
qed

end
